theory Spec2Isabelle
  imports Main
begin

section \<open>Python values used by the upload pipeline of \<^verbatim>\<open>home.py\<close>\<close>

text \<open>
  Python strings are modelled as \<^typ>\<open>string\<close>; a \<^typ>\<open>char\<close> stands for one code point below
  256. The exceptions that the modelled code can meet are values of \<open>py_error\<close>, and a
  computation that may raise returns \<open>py_error + 'a\<close>.
\<close>

datatype py_error =
    IndexError
  | FileNotFoundError
  | CalledProcessError int string
  | OSError
  | ValueError
  | DatabaseError

text \<open>\<^verbatim>\<open>str.lower()\<close> on code points below 256: the ASCII capitals and the Latin-1 capitals
  (\<open>0xC0\<close> to \<open>0xDE\<close> without the multiplication sign \<open>0xD7\<close>) move up by 32.\<close>

definition lower_char :: "char \<Rightarrow> char" where
  "lower_char c =
     (let n = (of_char c :: nat)
      in if (65 \<le> n \<and> n \<le> 90) \<or> (192 \<le> n \<and> n \<le> 222 \<and> n \<noteq> 215)
         then char_of (n + 32) else c)"

definition lower :: "string \<Rightarrow> string" where
  "lower s = map lower_char s"

text \<open>\<^verbatim>\<open>s.rsplit(sep, 1)\<close> for a one-character separator: the string is scanned from its right
  end; at the first separator met it is cut in two, and without one it comes back whole.\<close>

fun rsplit_scan :: "char \<Rightarrow> string \<Rightarrow> string \<Rightarrow> (string \<times> string) option" where
  "rsplit_scan sep [] acc = None"
| "rsplit_scan sep (c # rs) acc =
     (if c = sep then Some (rev rs, acc) else rsplit_scan sep rs (c # acc))"

definition rsplit1 :: "char \<Rightarrow> string \<Rightarrow> string list" where
  "rsplit1 sep s =
     (case rsplit_scan sep (rev s) [] of
        None \<Rightarrow> [s]
      | Some (before, after) \<Rightarrow> [before, after])"

text \<open>\<^verbatim>\<open>xs[i]\<close> for \<open>i \<ge> 0\<close> raises \<^verbatim>\<open>IndexError\<close> out of range.\<close>

definition index :: "'a list \<Rightarrow> nat \<Rightarrow> py_error + 'a" where
  "index xs i = (if i < length xs then Inr (xs ! i) else Inl IndexError)"

section \<open>Constants\<close>

definition CATEGORIES :: "(string \<times> string) list" where
  "CATEGORIES =
     [(''tendance'', ''Tendances''),
      (''jeux'', ''Jeux''),
      (''musique'', ''Musique''),
      (''film'', ''Films & Anim''),
      (''sport'', ''Sports'')]"

definition CATEGORIES_MAP :: "string \<rightharpoonup> (string \<times> string)" where
  "CATEGORIES_MAP = map_of (map (\<lambda>c. (fst c, c)) CATEGORIES)"

definition ALLOWED_EXTENSIONS :: "string set" where
  "ALLOWED_EXTENSIONS = {''mp4'', ''webm'', ''ogg'', ''mov'', ''m4v''}"

section \<open>Utils\<close>

text \<open>
  \<^verbatim>\<open>
  def allowed_file(filename: str) -> bool:
      return "." in filename and filename.rsplit(".", 1)[1].lower() in ALLOWED_EXTENSIONS
  \<close>
  The \<^verbatim>\<open>and\<close> short-circuits: the index is only taken when the name has a dot.
\<close>

definition allowed_file :: "string \<Rightarrow> py_error + bool" where
  "allowed_file fname =
     (if CHR ''.'' \<in> set fname
      then (case index (rsplit1 CHR ''.'' fname) 1 of
              Inl e \<Rightarrow> Inl e
            | Inr ext \<Rightarrow> Inr (lower ext \<in> ALLOWED_EXTENSIONS))
      else Inr False)"

section \<open>More of Python's string operations\<close>

text \<open>Whitespace as \<^verbatim>\<open>str.split()\<close> and \<^verbatim>\<open>str.strip()\<close> see it, for code points below 256:
  tab to carriage return, the four separators \<open>0x1C\<close> to \<open>0x1F\<close>, space, \<open>0x85\<close> and \<open>0xA0\<close>.\<close>

definition is_space :: "char \<Rightarrow> bool" where
  "is_space c =
     (let n = (of_char c :: nat)
      in (9 \<le> n \<and> n \<le> 13) \<or> (28 \<le> n \<and> n \<le> 32) \<or> n = 133 \<or> n = 160)"

text \<open>\<^verbatim>\<open>s.strip(chars)\<close>: the characters of the set are dropped at both ends.\<close>

definition strip_chars :: "(char \<Rightarrow> bool) \<Rightarrow> string \<Rightarrow> string" where
  "strip_chars P s = rev (dropWhile P (rev (dropWhile P s)))"

definition strip :: "string \<Rightarrow> string" where
  "strip s = strip_chars is_space s"

text \<open>\<^verbatim>\<open>s.split()\<close>: the maximal runs of non-whitespace, in order; \<open>cur\<close> holds the run being
  read, reversed.\<close>

fun split_ws_from :: "string \<Rightarrow> string \<Rightarrow> string list" where
  "split_ws_from cur [] = (if cur = [] then [] else [rev cur])"
| "split_ws_from cur (c # cs) =
     (if is_space c
      then (if cur = [] then split_ws_from [] cs else rev cur # split_ws_from [] cs)
      else split_ws_from (c # cur) cs)"

definition split_ws :: "string \<Rightarrow> string list" where
  "split_ws s = split_ws_from [] s"

text \<open>\<^verbatim>\<open>s.split(sep)\<close> for a one-character separator: always at least one piece.\<close>

fun split_on :: "char \<Rightarrow> string \<Rightarrow> string list" where
  "split_on sep [] = [[]]"
| "split_on sep (c # cs) =
     (if c = sep then [] # split_on sep cs
      else (case split_on sep cs of
              [] \<Rightarrow> [[c]]
            | x # xs \<Rightarrow> (c # x) # xs))"

text \<open>\<^verbatim>\<open>sep.join(xs)\<close>.\<close>

fun join_with :: "string \<Rightarrow> string list \<Rightarrow> string" where
  "join_with sep [] = []"
| "join_with sep [x] = x"
| "join_with sep (x # y # ys) = x @ sep @ join_with sep (y # ys)"

text \<open>\<^verbatim>\<open>s.replace(a, b)\<close> for one-character \<open>a\<close> and \<open>b\<close>.\<close>

definition replace_char :: "char \<Rightarrow> char \<Rightarrow> string \<Rightarrow> string" where
  "replace_char a b s = map (\<lambda>c. if c = a then b else c) s"

text \<open>\<^verbatim>\<open>s.rfind(c)\<close>: the index of the last occurrence, \<open>-1\<close> without one.\<close>

definition rfind :: "char \<Rightarrow> string \<Rightarrow> int" where
  "rfind c s =
     (if c \<in> set s
      then int (length s) - 1 - int (length (takeWhile (\<lambda>x. x \<noteq> c) (rev s)))
      else - 1)"

text \<open>\<^verbatim>\<open>str(n)\<close> for an integer \<open>n \<ge> 0\<close>: its decimal digits.\<close>

definition digit_char :: "nat \<Rightarrow> char" where
  "digit_char d = ''0123456789'' ! (d mod 10)"

function str_nat :: "nat \<Rightarrow> string" where
  "str_nat n = (if n < 10 then [digit_char n] else str_nat (n div 10) @ [digit_char (n mod 10)])"
  by pat_completeness auto
termination
  by (relation "measure (\<lambda>n. n)") auto

declare str_nat.simps [simp del]

text \<open>Truthiness of an optional string (\<^verbatim>\<open>None\<close> and \<^verbatim>\<open>""\<close> are false), and \<^verbatim>\<open>x or d\<close>.\<close>

definition truthy :: "string option \<Rightarrow> bool" where
  "truthy x = (case x of None \<Rightarrow> False | Some s \<Rightarrow> s \<noteq> [])"

definition or_else :: "string option \<Rightarrow> string \<Rightarrow> string" where
  "or_else x d = (case x of None \<Rightarrow> d | Some s \<Rightarrow> if s \<noteq> [] then s else d)"

section \<open>\<^verbatim>\<open>os.path\<close> on POSIX\<close>

text \<open>\<^verbatim>\<open>os.path.join(a, b)\<close>.\<close>

definition path_join :: "string \<Rightarrow> string \<Rightarrow> string" where
  "path_join a b =
     (if take 1 b = ''/'' then b
      else if a = [] \<or> last a = CHR ''/'' then a @ b
      else a @ ''/'' @ b)"

text \<open>
  \<^verbatim>\<open>os.path.splitext(p)\<close>: the extension starts at the last dot of the last component, and
  dots that lead that component do not start one.
  \<^verbatim>\<open>
      sepIndex = p.rfind(sep)
      dotIndex = p.rfind(extsep)
      if dotIndex > sepIndex:
          filenameIndex = sepIndex + 1
          while filenameIndex < dotIndex:
              if p[filenameIndex:filenameIndex+1] != extsep:
                  return p[:dotIndex], p[dotIndex:]
              filenameIndex += 1
      return p, p[:0]
  \<close>
\<close>

function splitext_scan :: "string \<Rightarrow> int \<Rightarrow> int \<Rightarrow> string \<times> string" where
  "splitext_scan p filenameIndex dotIndex =
     (if filenameIndex < dotIndex
      then (if take 1 (drop (nat filenameIndex) p) \<noteq> ''.''
            then (take (nat dotIndex) p, drop (nat dotIndex) p)
            else splitext_scan p (filenameIndex + 1) dotIndex)
      else (p, []))"
  by pat_completeness auto
termination
  by (relation "measure (\<lambda>(p, filenameIndex, dotIndex). nat (dotIndex - filenameIndex))") auto

declare splitext_scan.simps [simp del]

definition splitext :: "string \<Rightarrow> string \<times> string" where
  "splitext p =
     (let sepIndex = rfind CHR ''/'' p;
          dotIndex = rfind CHR ''.'' p
      in if dotIndex > sepIndex then splitext_scan p (sepIndex + 1) dotIndex else (p, []))"

text \<open>
  \<^verbatim>\<open>os.path.normpath(path)\<close>; \<open>norm_step\<close> is the body of its loop over the components
  (the loop variable \<^verbatim>\<open>comp\<close> is \<open>part\<close> here).
\<close>

definition norm_step :: "nat \<Rightarrow> string list \<Rightarrow> string \<Rightarrow> string list" where
  "norm_step initial_slashes new_comps part =
     (if part = [] \<or> part = ''.'' then new_comps
      else if part \<noteq> ''..'' \<or> (initial_slashes = 0 \<and> new_comps = [])
                \<or> (new_comps \<noteq> [] \<and> last new_comps = ''..'')
           then new_comps @ [part]
      else if new_comps \<noteq> [] then butlast new_comps
      else new_comps)"

definition normpath :: "string \<Rightarrow> string" where
  "normpath path =
     (if path = [] then ''.''
      else
        let initial_slashes =
              (if take 1 path = ''/''
               then (if take 2 path = ''//'' \<and> take 3 path \<noteq> ''///'' then 2 else 1)
               else (0::nat));
            comps = split_on CHR ''/'' path;
            new_comps = foldl (norm_step initial_slashes) [] comps;
            path = replicate initial_slashes CHR ''/'' @ join_with ''/'' new_comps
        in if path = [] then ''.'' else path)"

text \<open>\<^verbatim>\<open>os.path.abspath(path)\<close>, with the working directory \<open>cwd\<close> that \<^verbatim>\<open>os.getcwd()\<close> returns.\<close>

definition abspath :: "string \<Rightarrow> string \<Rightarrow> string" where
  "abspath cwd path =
     normpath (if take 1 path = ''/'' then path else path_join cwd path)"

text \<open>\<^verbatim>\<open>len(commonprefix([xs, ys]))\<close> for two lists of components.\<close>

fun common_prefix :: "string list \<Rightarrow> string list \<Rightarrow> string list" where
  "common_prefix (x # xs) (y # ys) = (if x = y then x # common_prefix xs ys else [])"
| "common_prefix _ _ = []"

text \<open>
  \<^verbatim>\<open>os.path.relpath(path, start)\<close>:
  \<^verbatim>\<open>
      if not path:
          raise ValueError("no path specified")
      start_list = [x for x in abspath(start).split(sep) if x]
      path_list = [x for x in abspath(path).split(sep) if x]
      i = len(commonprefix([start_list, path_list]))
      rel_list = [pardir] * (len(start_list)-i) + path_list[i:]
      if not rel_list:
          return curdir
      return join(*rel_list)
  \<close>
\<close>

definition relpath :: "string \<Rightarrow> string \<Rightarrow> string \<Rightarrow> py_error + string" where
  "relpath cwd path start =
     (if path = [] then Inl ValueError
      else
        let start_list = filter (\<lambda>x. x \<noteq> []) (split_on CHR ''/'' (abspath cwd start));
            path_list = filter (\<lambda>x. x \<noteq> []) (split_on CHR ''/'' (abspath cwd path));
            i = length (common_prefix start_list path_list);
            rel_list = replicate (length start_list - i) ''..'' @ drop i path_list
        in (case rel_list of
              [] \<Rightarrow> Inr ''.''
            | a # p \<Rightarrow> Inr (foldl path_join a p)))"

section \<open>Werkzeug's \<^verbatim>\<open>secure_filename\<close>\<close>

text \<open>
  \<^verbatim>\<open>secure_filename\<close> is imported from \<^verbatim>\<open>werkzeug.utils\<close>. On POSIX (\<^verbatim>\<open>os.sep\<close> is the
  slash, there is no \<^verbatim>\<open>os.path.altsep\<close>, and the branch for Windows device names is not
  taken) the library function is
  \<^verbatim>\<open>
      filename = unicodedata.normalize("NFKD", filename)
      filename = filename.encode("ascii", "ignore").decode("ascii")
      filename = filename.replace("/", " ")
      filename = str(_filename_ascii_strip_re.sub("", "_".join(filename.split()))).strip("._")
      return filename
  \<close>
  with \<^verbatim>\<open>_filename_ascii_strip_re = re.compile(r"[^A-Za-z0-9_.-]")\<close>. The table of Unicode
  decompositions is not modelled: the normalisation is the parameter \<open>nfkd\<close>, and nothing
  is assumed about it.
\<close>

definition safe_char :: "char \<Rightarrow> bool" where
  "safe_char c =
     (let n = (of_char c :: nat)
      in (65 \<le> n \<and> n \<le> 90) \<or> (97 \<le> n \<and> n \<le> 122) \<or> (48 \<le> n \<and> n \<le> 57)
         \<or> c = CHR ''_'' \<or> c = CHR ''.'' \<or> c = CHR ''-'')"

definition secure_filename :: "(string \<Rightarrow> string) \<Rightarrow> string \<Rightarrow> string" where
  "secure_filename nfkd fname =
     (let fname = nfkd fname;
          fname = filter (\<lambda>c. (of_char c :: nat) < 128) fname;
          fname = replace_char CHR ''/'' CHR '' '' fname
      in strip_chars (\<lambda>c. c = CHR ''.'' \<or> c = CHR ''_'')
           (filter safe_char (join_with ''_'' (split_ws fname))))"

section \<open>Models\<close>

text \<open>The \<^verbatim>\<open>Video\<close> row, without its creation time. \<open>vid\<close> is the column \<^verbatim>\<open>id\<close>: it has no
  value until the row is committed.\<close>

record video =
  vid :: "nat option"
  title :: string
  description :: string
  category :: string
  filename :: "string option"
  external_url :: "string option"
  thumb_url :: "string option"
  duration :: string
  creator :: string
  views :: nat
  likes :: nat
  dislikes :: nat
  user_id :: "nat option"
  hls_manifest :: "string option"

text \<open>
  \<^verbatim>\<open>
      @property
      def source_url(self):
          if self.hls_manifest:
              return url_for("hls", filename=self.hls_manifest, _external=False)
          if self.filename:
              return url_for("media", filename=self.filename, _external=False)
          return self.external_url or ""
  \<close>
  Flask's \<^verbatim>\<open>url_for\<close> is the parameter \<open>url_for\<close>, from the endpoint and the \<^verbatim>\<open>filename\<close>
  argument to the URL.
\<close>

definition source_url :: "(string \<Rightarrow> string \<Rightarrow> string) \<Rightarrow> video \<Rightarrow> string" where
  "source_url url_for self =
     (if truthy (hls_manifest self) then url_for ''hls'' (the (hls_manifest self))
      else if truthy (filename self) then url_for ''media'' (the (filename self))
      else or_else (external_url self) [])"

section \<open>The world around one request\<close>

text \<open>
  What a run of the external encoder can do: \<^verbatim>\<open>subprocess.run\<close> fails to start it, or the
  process exits with a return code and a standard error text, leaving the files below the
  streaming root as the third argument says.
\<close>

datatype proc_result =
    Spawn_failed py_error
  | Exited int string "string \<rightharpoonup> string"

text \<open>
  The environment of a request: the directory of the application, the working directory,
  the logged-in user, whether \<^verbatim>\<open>shutil.which("ffmpeg")\<close> finds the encoder, what the encoder
  does with a command line, whether \<^verbatim>\<open>f.save\<close> and \<^verbatim>\<open>db.session.commit\<close> go through, and
  \<^verbatim>\<open>datetime.utcnow().timestamp()\<close> rounded by the format \<^verbatim>\<open>:.0f\<close>.
\<close>

record env =
  BASE_DIR :: string
  cwd :: string
  nfkd :: "string \<Rightarrow> string"
  display_name :: string
  current_user_id :: nat
  ffmpeg_on_path :: bool
  run_ffmpeg :: "string list \<Rightarrow> (string \<rightharpoonup> string) \<Rightarrow> proc_result"
  save_ok :: bool
  commit_ok :: bool
  utc_timestamp :: nat

definition UPLOAD_DIR :: "env \<Rightarrow> string" where
  "UPLOAD_DIR e = path_join (BASE_DIR e) ''uploads''"

definition HLS_DIR :: "env \<Rightarrow> string" where
  "HLS_DIR e = path_join (UPLOAD_DIR e) ''hls''"

text \<open>The messages given to \<^verbatim>\<open>flash\<close>: no file received, extension not supported, HLS
  transcoding failed (direct playback is used), and the error message of the outer handler.\<close>

datatype flash = No_file | Bad_extension | Transcode_failed | Upload_error py_error

text \<open>
  The state that a request reads and changes: the names of the entries of the upload root,
  the text files below the streaming root by path, the committed \<^verbatim>\<open>videos\<close> rows and the
  flashed messages.
\<close>

record world =
  uploads :: "string list"
  hls_files :: "string \<rightharpoonup> string"
  videos :: "video list"
  flashes :: "flash list"

datatype response = Redirect_upload_form | Redirect_watch nat

section \<open>Transcoding\<close>

definition ffmpeg_exists :: "env \<Rightarrow> bool" where
  "ffmpeg_exists e = ffmpeg_on_path e"

definition ffmpeg_cmd :: "string \<Rightarrow> string \<Rightarrow> string list" where
  "ffmpeg_cmd input_path target_dir =
     [''ffmpeg'', ''-y'', ''-i'', input_path,
      ''-filter:v:0'', ''scale=w=640:h=360:force_original_aspect_ratio=decrease'',
      ''-c:a:0'', ''aac'', ''-ar:0'', ''48000'', ''-c:v:0'', ''h264'', ''-profile:v:0'', ''main'',
      ''-crf:0'', ''23'', ''-sc_threshold'', ''0'', ''-g'', ''48'', ''-keyint_min'', ''48'',
      ''-filter:v:1'', ''scale=w=1280:h=720:force_original_aspect_ratio=decrease'',
      ''-c:a:1'', ''aac'', ''-ar:1'', ''48000'', ''-c:v:1'', ''h264'', ''-profile:v:1'', ''main'',
      ''-crf:1'', ''21'', ''-sc_threshold'', ''0'', ''-g'', ''48'', ''-keyint_min'', ''48'',
      ''-map'', ''0:v:0'', ''-map'', ''0:a:0?'', ''-map'', ''0:v:0'', ''-map'', ''0:a:0?'',
      ''-var_stream_map'', ''v:0,a:0 v:1,a:1'', ''-master_pl_name'', ''master.m3u8'',
      ''-f'', ''hls'', ''-hls_time'', ''4'', ''-hls_playlist_type'', ''vod'',
      ''-hls_segment_filename'', path_join target_dir ''v%v/seg_%03d.ts'',
      path_join target_dir ''v%v/index.m3u8'']"

text \<open>The three \<^verbatim>\<open>f.write\<close> calls of the fallback, one after the other.\<close>

definition master_text :: string where
  "master_text =
     ''#EXTM3U'' @ [CHR 0x0A] @ ''#EXT-X-VERSION:3'' @ [CHR 0x0A]
     @ ''#EXT-X-STREAM-INF:BANDWIDTH=800000,RESOLUTION=640x360'' @ [CHR 0x0A]
     @ ''v0/index.m3u8'' @ [CHR 0x0A]
     @ ''#EXT-X-STREAM-INF:BANDWIDTH=2500000,RESOLUTION=1280x720'' @ [CHR 0x0A]
     @ ''v1/index.m3u8'' @ [CHR 0x0A]"

text \<open>
  \<^verbatim>\<open>
  def transcode_to_hls(input_path: str, target_dir: str) -> str:
      os.makedirs(target_dir, exist_ok=True)
      master_path = os.path.join(target_dir, "master.m3u8")
      cmd = [...]
      try:
          subprocess.run(cmd, check=True, stdout=subprocess.PIPE, stderr=subprocess.PIPE)
      except subprocess.CalledProcessError as e:
          print("FFmpeg error:", e.stderr.decode(errors="ignore")[:2000])
          raise
      if not os.path.exists(master_path):
          with open(master_path, "w", encoding="utf-8") as f:
              f.write(...)
      rel = os.path.relpath(master_path, HLS_DIR)
      return rel.replace("\\", "/")
  \<close>
  The function returns its result with the files it leaves. Creating the directory and
  opening the manifest for writing are taken to succeed, and \<^verbatim>\<open>print\<close> is not modelled.
\<close>

definition transcode_to_hls ::
  "env \<Rightarrow> string \<Rightarrow> string \<Rightarrow> (string \<rightharpoonup> string) \<Rightarrow> (py_error + string) \<times> (string \<rightharpoonup> string)" where
  "transcode_to_hls e input_path target_dir fs =
     (let master_path = path_join target_dir ''master.m3u8'';
          cmd = ffmpeg_cmd input_path target_dir
      in case run_ffmpeg e cmd fs of
           Spawn_failed err \<Rightarrow> (Inl err, fs)
         | Exited returncode stderr fs1 \<Rightarrow>
             if returncode \<noteq> 0 then (Inl (CalledProcessError returncode stderr), fs1)
             else
               let fs2 = (if fs1 master_path = None then fs1(master_path \<mapsto> master_text) else fs1)
               in (case relpath (cwd e) master_path (HLS_DIR e) of
                     Inl err \<Rightarrow> (Inl err, fs2)
                   | Inr rel \<Rightarrow> (Inr (replace_char (CHR 0x5C) CHR ''/'' rel), fs2)))"

section \<open>Upload\<close>

text \<open>
  \<^verbatim>\<open>os.path.exists(os.path.join(UPLOAD_DIR, final))\<close> for a name without a slash: the name
  is an entry of the upload root; the empty name gives the path of the upload root itself,
  which exists.
\<close>

definition path_exists :: "string list \<Rightarrow> string \<Rightarrow> bool" where
  "path_exists entries final = (final = [] \<or> final \<in> set entries)"

text \<open>
  \<^verbatim>\<open>
          while os.path.exists(os.path.join(UPLOAD_DIR, final)):
              final = f"{base}-{counter}{ext}"
              counter += 1
  \<close>
\<close>

function reserve_loop :: "string list \<Rightarrow> string \<Rightarrow> string \<Rightarrow> string \<Rightarrow> nat \<Rightarrow> string" where
  "reserve_loop entries base ext final counter =
     (if path_exists entries final
      then reserve_loop entries base ext (base @ ''-'' @ str_nat counter @ ext) (counter + 1)
      else final)"
  by pat_completeness auto

lemma str_nat_bound: "n < 10 ^ length (str_nat n)"
proof (induction n rule: str_nat.induct)
  case (1 n)
  show ?case
  proof (cases "n < 10")
    case True
    then show ?thesis by (simp add: str_nat.simps [of n])
  next
    case False
    with 1 have "n div 10 < 10 ^ length (str_nat (n div 10))" by simp
    then have "n < 10 * 10 ^ length (str_nat (n div 10))" by auto
    with False show ?thesis by (simp add: str_nat.simps [of n])
  qed
qed

lemma str_nat_long:
  assumes "10 ^ L \<le> n"
  shows "L < length (str_nat n)"
proof -
  have "(10::nat) ^ L < 10 ^ length (str_nat n)"
    using assms str_nat_bound [of n] by (rule le_less_trans)
  then show ?thesis by (simp add: power_less_imp_less_exp)
qed

lemma entry_length_le: "x \<in> set entries \<Longrightarrow> length x \<le> sum_list (map length entries)"
  by (induction entries) auto

lemma late_candidate_free:
  assumes "10 ^ sum_list (map length entries) \<le> counter"
  shows "\<not> path_exists entries (base @ ''-'' @ str_nat counter @ ext)"
proof -
  let ?c = "base @ ''-'' @ str_nat counter @ ext"
  have "sum_list (map length entries) < length ?c"
    using str_nat_long [OF assms] by simp
  then have "?c \<notin> set entries"
    using entry_length_le [of ?c entries] by auto
  then show ?thesis by (simp add: path_exists_def)
qed

termination reserve_loop
proof (relation "measure (\<lambda>(entries, base, ext, final, counter).
          (10 ^ sum_list (map length entries) - counter)
          + (if path_exists entries final then 1 else 0))", goal_cases)
  case 1
  show ?case by simp
next
  case (2 entries final base ext counter)
  show ?case
  proof (cases "10 ^ sum_list (map length entries) \<le> counter")
    case True
    from late_candidate_free [OF True] 2 True show ?thesis by simp
  next
    case False
    have "10 ^ sum_list (map length entries) - Suc counter
            < 10 ^ sum_list (map length entries) - counter"
      using False by arith
    with 2 show ?thesis by simp
  qed
qed

declare reserve_loop.simps [simp del]

text \<open>
  The name under which an upload is stored, from the entries of the upload root and the
  filename that the client sent:
  \<^verbatim>\<open>
          filename = secure_filename(f.filename)
          base, ext = os.path.splitext(filename)
          counter = 1
          final = filename
          while os.path.exists(os.path.join(UPLOAD_DIR, final)):
              ...
  \<close>
\<close>

definition reserve :: "(string \<Rightarrow> string) \<Rightarrow> string list \<Rightarrow> string \<Rightarrow> string" where
  "reserve nf entries fname =
     (let sanitized = secure_filename nf fname;
          (base, ext) = splitext sanitized
      in reserve_loop entries base ext sanitized 1)"

text \<open>The form fields of the request and the filename of its \<^verbatim>\<open>file\<close> part (\<open>None\<close> when a
  field or the part is absent).\<close>

record upload_request =
  file_name :: "string option"
  form_title :: "string option"
  form_description :: "string option"
  form_category :: "string option"
  form_creator :: "string option"
  form_to_hls :: "string option"

text \<open>The integer key that the database gives a new row: one more than the largest in use.\<close>

definition next_id :: "video list \<Rightarrow> nat" where
  "next_id vs = Suc (foldr max (map (\<lambda>v. case vid v of None \<Rightarrow> 0 | Some i \<Rightarrow> i) vs) 0)"

text \<open>
  The body of the \<^verbatim>\<open>try\<close> block of \<^verbatim>\<open>upload_post\<close>; \<open>Inl\<close> is an exception that leaves it.
  \<^verbatim>\<open>
          f = request.files.get("file")
          title = (request.form.get("title") or "Sans titre").strip()
          description = (request.form.get("description") or "").strip()
          category = request.form.get("category") or "tendance"
          creator = (request.form.get("creator") or current_user.display_name or "Anonyme").strip()
          to_hls = request.form.get("to_hls") is not None
          if not f or f.filename == "":
              flash(...); return redirect(url_for("upload_form"))
          if not allowed_file(f.filename):
              flash(...); return redirect(url_for("upload_form"))
          filename = secure_filename(f.filename)
          ...
          file_path = os.path.join(UPLOAD_DIR, final)
          f.save(file_path)
          v = Video(title=title, description=description,
                    category=category if category in CATEGORIES_MAP else "tendance",
                    filename=final,
                    thumb_url="https://picsum.photos/seed/mitabo-" + base + "/640/360",
                    duration="", creator=creator, user_id=current_user.id)
          if to_hls and ffmpeg_exists():
              target_dir = os.path.join(HLS_DIR, f"video_{datetime.utcnow().timestamp():.0f}")
              try:
                  rel_master = transcode_to_hls(file_path, target_dir)
                  v.hls_manifest = rel_master
              except Exception as e:
                  print(...); flash(...)
          db.session.add(v)
          db.session.commit()
          return redirect(url_for("watch", video_id=v.id))
  \<close>
  The columns that the constructor does not set take their defaults.
\<close>

definition upload_try ::
  "env \<Rightarrow> upload_request \<Rightarrow> world \<Rightarrow> (py_error + response) \<times> world" where
  "upload_try e r w =
     (let title = strip (or_else (form_title r) ''Sans titre'');
          description = strip (or_else (form_description r) []);
          category = or_else (form_category r) ''tendance'';
          creator = strip (or_else (form_creator r)
                      (if display_name e \<noteq> [] then display_name e else ''Anonyme''));
          to_hls = (form_to_hls r \<noteq> None)
      in if \<not> truthy (file_name r)
         then (Inr Redirect_upload_form, w\<lparr>flashes := flashes w @ [No_file]\<rparr>)
         else
           (case allowed_file (the (file_name r)) of
              Inl err \<Rightarrow> (Inl err, w)
            | Inr allowed \<Rightarrow>
                if \<not> allowed
                then (Inr Redirect_upload_form, w\<lparr>flashes := flashes w @ [Bad_extension]\<rparr>)
                else
                  let filename = secure_filename (nfkd e) (the (file_name r));
                      (base, ext) = splitext filename;
                      final = reserve_loop (uploads w) base ext filename 1;
                      file_path = path_join (UPLOAD_DIR e) final
                  in if \<not> save_ok e then (Inl OSError, w)
                     else
                       let w = w\<lparr>uploads := uploads w @ [final]\<rparr>;
                           v = \<lparr>vid = None, title = title, description = description,
                                category = (if CATEGORIES_MAP category \<noteq> None then category
                                            else ''tendance''),
                                filename = Some final, external_url = None,
                                thumb_url = Some (''https://picsum.photos/seed/mitabo-'' @ base
                                                  @ ''/640/360''),
                                duration = [], creator = creator,
                                views = 0, likes = 0, dislikes = 0,
                                user_id = Some (current_user_id e), hls_manifest = None\<rparr>;
                           (v, w) =
                             (if to_hls \<and> ffmpeg_exists e
                              then
                                let target_dir = path_join (HLS_DIR e)
                                                   (''video_'' @ str_nat (utc_timestamp e))
                                in (case transcode_to_hls e file_path target_dir (hls_files w) of
                                      (Inr rel_master, fs) \<Rightarrow>
                                        (v\<lparr>hls_manifest := Some rel_master\<rparr>,
                                         w\<lparr>hls_files := fs\<rparr>)
                                    | (Inl err, fs) \<Rightarrow>
                                        (v, w\<lparr>hls_files := fs,
                                              flashes := flashes w @ [Transcode_failed]\<rparr>))
                              else (v, w))
                       in if \<not> commit_ok e then (Inl DatabaseError, w)
                          else
                            let v = v\<lparr>vid := Some (next_id (videos w))\<rparr>
                            in (Inr (Redirect_watch (next_id (videos w))),
                                w\<lparr>videos := videos w @ [v]\<rparr>)))"

text \<open>
  \<^verbatim>\<open>upload_post\<close>: the outer handler turns every exception into a flashed message and a
  redirect to the upload form.
  \<^verbatim>\<open>
      except Exception as e:
          print(...); flash(f"Erreur lors de l'upload: {e}")
          return redirect(url_for("upload_form"))
  \<close>
\<close>

definition upload_post :: "env \<Rightarrow> upload_request \<Rightarrow> world \<Rightarrow> response \<times> world" where
  "upload_post e r w =
     (case upload_try e r w of
        (Inr resp, w') \<Rightarrow> (resp, w')
      | (Inl err, w') \<Rightarrow>
          (Redirect_upload_form, w'\<lparr>flashes := flashes w' @ [Upload_error err]\<rparr>))"

section \<open>Reading decimal digits back\<close>

text \<open>The inverse of \<open>str_nat\<close>, used to show that distinct counters give distinct names.\<close>

definition digit_val :: "char \<Rightarrow> nat" where
  "digit_val c = length (takeWhile (\<lambda>x. x \<noteq> c) ''0123456789'')"

definition nat_of_str :: "string \<Rightarrow> nat" where
  "nat_of_str s = foldl (\<lambda>a c. 10 * a + digit_val c) 0 s"

section \<open>Playlists and leading slashes\<close>

text \<open>The URI lines of a playlist: its lines that are not empty and do not start with
  \<open>#\<close>, the mark of a tag or a comment.\<close>

definition playlist_uris :: "string \<Rightarrow> string list" where
  "playlist_uris text =
     filter (\<lambda>l. l \<noteq> [] \<and> hd l \<noteq> CHR ''#'') (split_on (CHR 0x0A) text)"

text \<open>The number of leading slashes that \<open>normpath\<close> keeps on an absolute path.\<close>

definition slashes :: "string \<Rightarrow> nat" where
  "slashes path = (if take 2 path = ''//'' \<and> take 3 path \<noteq> ''///'' then 2 else 1)"

section \<open>Sample inputs\<close>

text \<open>A row, an environment, a request and a state of the world, on which the theorems
  are tried.\<close>

definition sample_video :: video where
  "sample_video =
     \<lparr>vid = Some 1, title = ''Clip'', description = [], category = ''film'',
      filename = None, external_url = None, thumb_url = None, duration = [],
      creator = ''Demo'', views = 0, likes = 0, dislikes = 0, user_id = Some 1,
      hls_manifest = None\<rparr>"

definition sample_env :: env where
  "sample_env =
     \<lparr>BASE_DIR = ''/srv/mitabo'', cwd = ''/srv/mitabo'', nfkd = (\<lambda>s. s),
      display_name = ''Demo'', current_user_id = 1, ffmpeg_on_path = True,
      run_ffmpeg = (\<lambda>cmd fs. Exited 1 ''Invalid data found when processing input'' fs),
      save_ok = True, commit_ok = True, utc_timestamp = 1700000000\<rparr>"

definition sample_request :: upload_request where
  "sample_request =
     \<lparr>file_name = Some ''a.mp4'', form_title = None, form_description = None,
      form_category = Some ''jeux'', form_creator = None, form_to_hls = Some ''on''\<rparr>"

definition sample_world :: world where
  "sample_world =
     \<lparr>uploads = [''hls'', ''a.mp4''], hls_files = Map.empty, videos = [], flashes = []\<rparr>"

definition fresh_world :: world where
  "fresh_world = \<lparr>uploads = [''hls''], hls_files = Map.empty, videos = [], flashes = []\<rparr>"

definition bare_env :: env where
  "bare_env = sample_env\<lparr>ffmpeg_on_path := False\<rparr>"

definition nocommit_env :: env where
  "nocommit_env = sample_env\<lparr>commit_ok := False\<rparr>"

definition quiet_env :: env where
  "quiet_env = sample_env\<lparr>run_ffmpeg := (\<lambda>cmd fs. Exited 0 [] fs)\<rparr>"

section \<open>Facts about the string helpers\<close>

lemma rsplit_scan_None:
  "rsplit_scan sep rs acc = None \<longleftrightarrow> sep \<notin> set rs"
  by (induction rs arbitrary: acc) auto

lemma rsplit_scan_Some:
  "rsplit_scan sep rs acc = Some (b, a) \<Longrightarrow>
     \<exists>t. a = t @ acc \<and> sep \<notin> set t \<and> rev rs = b @ sep # t"
proof (induction rs arbitrary: acc)
  case Nil
  then show ?case by simp
next
  case (Cons c rs)
  show ?case
  proof (cases "c = sep")
    case True
    with Cons.prems show ?thesis by auto
  next
    case False
    with Cons.prems have "rsplit_scan sep rs (c # acc) = Some (b, a)" by simp
    from Cons.IH [OF this] obtain t where
      t: "a = t @ c # acc" "sep \<notin> set t" "rev rs = b @ sep # t" by blast
    with False show ?thesis
      by (intro exI [of _ "t @ [c]"]) auto
  qed
qed

lemma rsplit1_dot:
  assumes "sep \<in> set s"
  shows "\<exists>b a. rsplit1 sep s = [b, a] \<and> s = b @ sep # a \<and> sep \<notin> set a"
proof -
  from assms have "rsplit_scan sep (rev s) [] \<noteq> None"
    by (simp add: rsplit_scan_None)
  then obtain b a where ba: "rsplit_scan sep (rev s) [] = Some (b, a)" by auto
  from rsplit_scan_Some [OF ba] have "sep \<notin> set a" "s = b @ sep # a" by auto
  with ba show ?thesis by (simp add: rsplit1_def)
qed

lemma last_dot_unique:
  assumes "b @ CHR ''.'' # a = b' @ CHR ''.'' # a'"
    and "CHR ''.'' \<notin> set a" and "CHR ''.'' \<notin> set a'"
  shows "a = a'"
  using assms
  by (auto simp: append_eq_append_conv2 append_eq_Cons_conv Cons_eq_append_conv)

section \<open>Facts about the storage names\<close>

lemma reserve_loop_probe:
  "(\<not> path_exists entries final \<and> reserve_loop entries base ext final counter = final)
   \<or> (path_exists entries final \<and>
       (\<exists>k\<ge>counter. reserve_loop entries base ext final counter = base @ ''-'' @ str_nat k @ ext
          \<and> \<not> path_exists entries (base @ ''-'' @ str_nat k @ ext)
          \<and> (\<forall>j. counter \<le> j \<and> j < k \<longrightarrow> path_exists entries (base @ ''-'' @ str_nat j @ ext))))"
proof (induction entries base ext final counter rule: reserve_loop.induct)
  case (1 entries base ext final counter)
  show ?case
  proof (cases "path_exists entries final")
    case False
    then show ?thesis by (simp add: reserve_loop.simps [of _ _ _ final])
  next
    case True
    let ?name = "\<lambda>k. base @ ''-'' @ str_nat k @ ext"
    have unfold: "reserve_loop entries base ext final counter
                  = reserve_loop entries base ext (?name counter) (counter + 1)"
      using True by (simp add: reserve_loop.simps [of _ _ _ final])
    from 1 [OF True] consider
        (stop) "\<not> path_exists entries (?name counter)"
               "reserve_loop entries base ext (?name counter) (counter + 1) = ?name counter"
      | (go) k where "path_exists entries (?name counter)" "counter + 1 \<le> k"
          "reserve_loop entries base ext (?name counter) (counter + 1) = ?name k"
          "\<not> path_exists entries (?name k)"
          "\<forall>j. counter + 1 \<le> j \<and> j < k \<longrightarrow> path_exists entries (?name j)"
      by blast
    then show ?thesis
    proof cases
      case stop
      with unfold True show ?thesis by (intro disjI2 conjI exI [of _ counter]) auto
    next
      case go
      have "\<forall>j. counter \<le> j \<and> j < k \<longrightarrow> path_exists entries (?name j)"
      proof (intro allI impI)
        fix j assume j: "counter \<le> j \<and> j < k"
        show "path_exists entries (?name j)"
        proof (cases "j = counter")
          case True
          with go(1) show ?thesis by simp
        next
          case False
          with j have "counter + 1 \<le> j \<and> j < k" by simp
          with go(5) show ?thesis by blast
        qed
      qed
      with unfold True go show ?thesis
        by (intro disjI2 conjI exI [of _ k]) simp_all
    qed
  qed
qed

lemma reserve_loop_free:
  "\<not> path_exists entries (reserve_loop entries base ext final counter)"
  using reserve_loop_probe [of entries final base ext counter] by auto

lemma digit_val_char_upto: "\<forall>d \<in> set [0..<10]. digit_val (digit_char d) = d"
  by code_simp

lemma digit_val_char: "d < 10 \<Longrightarrow> digit_val (digit_char d) = d"
  using digit_val_char_upto by simp

lemma nat_of_str_nat: "nat_of_str (str_nat n) = n"
proof (induction n rule: str_nat.induct)
  case (1 n)
  show ?case
  proof (cases "n < 10")
    case True
    then show ?thesis by (simp add: str_nat.simps [of n] nat_of_str_def digit_val_char)
  next
    case False
    with 1 have "nat_of_str (str_nat (n div 10)) = n div 10" by simp
    with False show ?thesis
      by (simp add: str_nat.simps [of n] nat_of_str_def digit_val_char)
  qed
qed

lemma str_nat_inj: "str_nat m = str_nat n \<Longrightarrow> m = n"
  by (metis nat_of_str_nat)

lemma digit_char_safe_upto: "\<forall>d \<in> set [0..<10]. safe_char (digit_char d)"
  by code_simp

lemma digit_char_safe: "safe_char (digit_char d)"
proof -
  have "digit_char d = digit_char (d mod 10)" by (simp add: digit_char_def)
  moreover have "safe_char (digit_char (d mod 10))"
    using digit_char_safe_upto by simp
  ultimately show ?thesis by simp
qed

lemma str_nat_safe: "c \<in> set (str_nat n) \<Longrightarrow> safe_char c"
proof (induction n rule: str_nat.induct)
  case (1 n)
  then show ?case
    by (cases "n < 10") (auto simp: str_nat.simps [of n] digit_char_safe)
qed

lemma str_nat_nonempty: "str_nat n \<noteq> []"
  by (simp add: str_nat.simps [of n])


lemma strip_chars_subset: "set (strip_chars P s) \<subseteq> set s"
proof -
  have "set (dropWhile P (rev (dropWhile P s))) \<subseteq> set (rev (dropWhile P s))"
    by (rule set_dropWhileD [THEN subsetI])
  also have "\<dots> \<subseteq> set s"
    using set_dropWhileD [of _ P s] by auto
  finally show ?thesis by (simp add: strip_chars_def)
qed

lemma strip_chars_hd:
  assumes "strip_chars P s \<noteq> []"
  shows "\<not> P (hd (strip_chars P s))"
proof -
  let ?t = "dropWhile P s"
  let ?u = "dropWhile P (rev ?t)"
  from assms have u: "?u \<noteq> []" by (simp add: strip_chars_def)
  have t: "?t \<noteq> []"
  proof
    assume "?t = []"
    then have "?u = []" by (metis dropWhile.simps(1) rev.simps(1))
    with u show False by simp
  qed
  have "rev ?t = takeWhile P (rev ?t) @ ?u" by simp
  then have "last (rev ?t) = last ?u"
    using u by (metis last_appendR)
  then have "last ?u = hd ?t" using t by (simp add: last_rev)
  moreover have "\<not> P (hd ?t)" using t by (rule hd_dropWhile)
  moreover have "hd (strip_chars P s) = last ?u"
    using u by (simp add: strip_chars_def hd_rev)
  ultimately show ?thesis by simp
qed

lemma secure_filename_safe: "c \<in> set (secure_filename nf s) \<Longrightarrow> safe_char c"
proof -
  assume "c \<in> set (secure_filename nf s)"
  then have "c \<in> set (filter safe_char (join_with ''_'' (split_ws
      (replace_char CHR ''/'' CHR '' '' (filter (\<lambda>c. (of_char c :: nat) < 128) (nf s))))))"
    using strip_chars_subset by (fastforce simp: secure_filename_def Let_def)
  then show ?thesis by simp
qed

lemma secure_filename_hd:
  "secure_filename nf s \<noteq> [] \<Longrightarrow> hd (secure_filename nf s) \<noteq> CHR ''.''"
  using strip_chars_hd [of "\<lambda>c. c = CHR ''.'' \<or> c = CHR ''_''"]
  by (fastforce simp: secure_filename_def Let_def)

lemma splitext_scan_append:
  "splitext_scan p i d = (b, x) \<Longrightarrow> b @ x = p"
proof (induction p i d rule: splitext_scan.induct)
  case (1 p filenameIndex dotIndex)
  then show ?case
    by (simp add: splitext_scan.simps [of p filenameIndex dotIndex] split: if_splits) auto
qed

lemma splitext_append: "splitext p = (b, x) \<Longrightarrow> b @ x = p"
  by (auto simp: splitext_def Let_def splitext_scan_append split: if_splits)

lemma splitext_scan_base_nonempty:
  "splitext_scan p i d = (b, x) \<Longrightarrow> p \<noteq> [] \<Longrightarrow> 0 \<le> i \<Longrightarrow> b \<noteq> []"
proof (induction p i d rule: splitext_scan.induct)
  case (1 p filenameIndex dotIndex)
  show ?case
  proof (cases "filenameIndex < dotIndex")
    case False
    with 1 show ?thesis by (simp add: splitext_scan.simps [of p filenameIndex dotIndex])
  next
    case lt: True
    show ?thesis
    proof (cases "take 1 (drop (nat filenameIndex) p) \<noteq> ''.''")
      case True
      with lt 1(2) have "b = take (nat dotIndex) p"
        by (simp add: splitext_scan.simps [of p filenameIndex dotIndex])
      moreover have "0 < nat dotIndex" using lt 1(4) by simp
      ultimately show ?thesis using 1(3) by auto
    next
      case False
      with lt 1 show ?thesis
        by (simp add: splitext_scan.simps [of p filenameIndex dotIndex])
    qed
  qed
qed

lemma rfind_ge: "- 1 \<le> rfind c s"
proof -
  have "length (takeWhile (\<lambda>x. x \<noteq> c) (rev s)) \<le> length s"
    using length_takeWhile_le [of _ "rev s"] by simp
  then show ?thesis by (simp add: rfind_def)
qed

lemma splitext_base_nonempty:
  "splitext p = (b, x) \<Longrightarrow> p \<noteq> [] \<Longrightarrow> b \<noteq> []"
  using rfind_ge [of "CHR ''/''" p]
  by (auto simp: splitext_def Let_def split: if_splits
      dest!: splitext_scan_base_nonempty)

lemma candidate_inj:
  "base @ ''-'' @ str_nat j @ ext = base @ ''-'' @ str_nat k @ ext \<Longrightarrow> j = k"
  by (simp add: str_nat_inj)

lemma probe_bound:
  assumes "\<forall>j. counter \<le> j \<and> j < k \<longrightarrow> path_exists entries (base @ ''-'' @ str_nat j @ ext)"
  shows "k - counter \<le> length entries"
proof -
  let ?name = "\<lambda>j. base @ ''-'' @ str_nat j @ ext"
  have "?name ` {counter..<k} \<subseteq> set entries"
    using assms by (auto simp: path_exists_def)
  then have "card (?name ` {counter..<k}) \<le> card (set entries)"
    by (simp add: card_mono)
  moreover have "inj_on ?name {counter..<k}"
    by (rule inj_onI) (rule candidate_inj)
  then have "card (?name ` {counter..<k}) = k - counter"
    by (simp add: card_image)
  ultimately show ?thesis
    using card_length [of entries] by linarith
qed

lemma reserve_loop_bounded:
  "reserve_loop entries base ext final counter = final
   \<or> (\<exists>k. counter \<le> k \<and> k \<le> counter + length entries
        \<and> reserve_loop entries base ext final counter = base @ ''-'' @ str_nat k @ ext)"
proof -
  from reserve_loop_probe [of entries final base ext counter] consider
      "reserve_loop entries base ext final counter = final"
    | k where "counter \<le> k"
        "reserve_loop entries base ext final counter = base @ ''-'' @ str_nat k @ ext"
        "\<forall>j. counter \<le> j \<and> j < k \<longrightarrow> path_exists entries (base @ ''-'' @ str_nat j @ ext)"
    by blast
  then show ?thesis
  proof cases
    case 1
    then show ?thesis by simp
  next
    case 2
    from probe_bound [OF 2(3)] 2(1) have "k \<le> counter + length entries" by simp
    with 2 show ?thesis by blast
  qed
qed

section \<open>Facts about \<^verbatim>\<open>upload_post\<close>\<close>

lemma upload_post_stored:
  assumes f: "file_name r = Some fname" "fname \<noteq> []"
    and a: "allowed_file fname = Inr True"
    and s: "save_ok e" and c: "commit_ok e"
  shows "\<exists>v fs fl.
      upload_post e r w =
        (Redirect_watch (next_id (videos w)),
         w\<lparr>uploads := uploads w @ [reserve (nfkd e) (uploads w) fname], hls_files := fs,
           videos := videos w @ [v], flashes := fl\<rparr>)
      \<and> vid v = Some (next_id (videos w))
      \<and> title v = strip (or_else (form_title r) ''Sans titre'')
      \<and> category v =
          (if CATEGORIES_MAP (or_else (form_category r) ''tendance'') \<noteq> None
           then or_else (form_category r) ''tendance'' else ''tendance'')
      \<and> filename v = Some (reserve (nfkd e) (uploads w) fname)
      \<and> thumb_url v =
          Some (''https://picsum.photos/seed/mitabo-''
                @ fst (splitext (secure_filename (nfkd e) fname)) @ ''/640/360'')
      \<and> (hls_manifest v, fs, fl) =
          (if form_to_hls r \<noteq> None \<and> ffmpeg_on_path e
           then (case transcode_to_hls e
                        (path_join (UPLOAD_DIR e) (reserve (nfkd e) (uploads w) fname))
                        (path_join (HLS_DIR e) (''video_'' @ str_nat (utc_timestamp e)))
                        (hls_files w) of
                   (Inr rel, fs') \<Rightarrow> (Some rel, fs', flashes w)
                 | (Inl err, fs') \<Rightarrow> (None, fs', flashes w @ [Transcode_failed]))
           else (None, hls_files w, flashes w))"
proof -
  define final where "final = reserve (nfkd e) (uploads w) fname"
  define v0 :: video where "v0 =
     \<lparr>vid = None, title = strip (or_else (form_title r) ''Sans titre''),
      description = strip (or_else (form_description r) []),
      category = (if CATEGORIES_MAP (or_else (form_category r) ''tendance'') \<noteq> None
                  then or_else (form_category r) ''tendance'' else ''tendance''),
      filename = Some final, external_url = None,
      thumb_url = Some (''https://picsum.photos/seed/mitabo-''
                        @ fst (splitext (secure_filename (nfkd e) fname)) @ ''/640/360''),
      duration = [],
      creator = strip (or_else (form_creator r)
                  (if display_name e \<noteq> [] then display_name e else ''Anonyme'')),
      views = 0, likes = 0, dislikes = 0,
      user_id = Some (current_user_id e), hls_manifest = None\<rparr>"
  define w1 where "w1 = w\<lparr>uploads := uploads w @ [final]\<rparr>"
  define tr where "tr = transcode_to_hls e (path_join (UPLOAD_DIR e) final)
                        (path_join (HLS_DIR e) (''video_'' @ str_nat (utc_timestamp e)))
                        (hls_files w)"
  have final: "final = reserve_loop (uploads w) (fst (splitext (secure_filename (nfkd e) fname)))
                   (snd (splitext (secure_filename (nfkd e) fname)))
                   (secure_filename (nfkd e) fname) 1"
    by (simp add: final_def reserve_def Let_def split_def)
  have pre: "truthy (file_name r)" "the (file_name r) = fname"
    using f by (simp_all add: truthy_def)
  show ?thesis
  proof (cases "form_to_hls r \<noteq> None \<and> ffmpeg_on_path e")
    case False
    then have H: "(form_to_hls r \<noteq> None \<and> ffmpeg_exists e) = False"
      by (simp add: ffmpeg_exists_def)
    have "upload_try e r w =
        (Inr (Redirect_watch (next_id (videos w))),
         w\<lparr>uploads := uploads w @ [final],
           videos := videos w @ [v0\<lparr>vid := Some (next_id (videos w))\<rparr>]\<rparr>)"
      unfolding upload_try_def Let_def split_def pre H a final [symmetric]
      using s c pre by (simp add: v0_def)
    then have "upload_post e r w =
        (Redirect_watch (next_id (videos w)),
         w\<lparr>uploads := uploads w @ [final], hls_files := hls_files w,
           videos := videos w @ [v0\<lparr>vid := Some (next_id (videos w))\<rparr>], flashes := flashes w\<rparr>)"
      by (simp add: upload_post_def)
    moreover have "(if form_to_hls r \<noteq> None \<and> ffmpeg_on_path e
           then (case tr of
                   (Inr rel, fs') \<Rightarrow> (Some rel, fs', flashes w)
                 | (Inl err, fs') \<Rightarrow> (None, fs', flashes w @ [Transcode_failed]))
           else (None, hls_files w, flashes w)) = (None, hls_files w, flashes w)"
      by (simp only: False if_False)
    ultimately show ?thesis
      unfolding final_def [symmetric] tr_def [symmetric]
      by (intro exI [of _ "v0\<lparr>vid := Some (next_id (videos w))\<rparr>"] exI [of _ "hls_files w"]
          exI [of _ "flashes w"]) (simp add: v0_def)
  next
    case True
    then have H: "(form_to_hls r \<noteq> None \<and> ffmpeg_exists e) = True"
      by (simp add: ffmpeg_exists_def)
    obtain res fs' where t: "tr = (res, fs')" by (cases tr) blast
    have t': "transcode_to_hls e (path_join (UPLOAD_DIR e) final)
                (path_join (HLS_DIR e) (''video_'' @ str_nat (utc_timestamp e)))
                (hls_files (w\<lparr>uploads := uploads w @ [final]\<rparr>)) = (res, fs')"
      using t by (simp add: tr_def)
    show ?thesis
    proof (cases res)
      case (Inl err)
      have "upload_try e r w =
          (Inr (Redirect_watch (next_id (videos w))),
           w\<lparr>uploads := uploads w @ [final], hls_files := fs',
             videos := videos w @ [v0\<lparr>vid := Some (next_id (videos w))\<rparr>],
             flashes := flashes w @ [Transcode_failed]\<rparr>)"
        unfolding upload_try_def Let_def split_def pre H a final [symmetric] t' Inl
        using s c pre by (simp add: v0_def)
      then have "upload_post e r w =
          (Redirect_watch (next_id (videos w)),
           w\<lparr>uploads := uploads w @ [final], hls_files := fs',
             videos := videos w @ [v0\<lparr>vid := Some (next_id (videos w))\<rparr>],
             flashes := flashes w @ [Transcode_failed]\<rparr>)"
        by (simp add: upload_post_def)
      moreover have "(if form_to_hls r \<noteq> None \<and> ffmpeg_on_path e
           then (case tr of
                   (Inr rel, fs') \<Rightarrow> (Some rel, fs', flashes w)
                 | (Inl err, fs') \<Rightarrow> (None, fs', flashes w @ [Transcode_failed]))
           else (None, hls_files w, flashes w)) = (None, fs', flashes w @ [Transcode_failed])"
        using True by (simp add: t Inl)
      ultimately show ?thesis
        unfolding final_def [symmetric] tr_def [symmetric]
        by (intro exI [of _ "v0\<lparr>vid := Some (next_id (videos w))\<rparr>"] exI [of _ fs']
            exI [of _ "flashes w @ [Transcode_failed]"]) (simp add: v0_def)
    next
      case (Inr rel)
      have "upload_try e r w =
          (Inr (Redirect_watch (next_id (videos w))),
           w\<lparr>uploads := uploads w @ [final], hls_files := fs',
             videos := videos w @ [v0\<lparr>vid := Some (next_id (videos w)),
                                       hls_manifest := Some rel\<rparr>]\<rparr>)"
        unfolding upload_try_def Let_def split_def pre H a final [symmetric] t' Inr
        using s c pre by (simp add: v0_def)
      then have "upload_post e r w =
          (Redirect_watch (next_id (videos w)),
           w\<lparr>uploads := uploads w @ [final], hls_files := fs',
             videos := videos w @ [v0\<lparr>vid := Some (next_id (videos w)),
                                       hls_manifest := Some rel\<rparr>],
             flashes := flashes w\<rparr>)"
        by (simp add: upload_post_def)
      moreover have "(if form_to_hls r \<noteq> None \<and> ffmpeg_on_path e
           then (case tr of
                   (Inr rel, fs') \<Rightarrow> (Some rel, fs', flashes w)
                 | (Inl err, fs') \<Rightarrow> (None, fs', flashes w @ [Transcode_failed]))
           else (None, hls_files w, flashes w)) = (Some rel, fs', flashes w)"
        using True by (simp add: t Inr)
      ultimately show ?thesis
        unfolding final_def [symmetric] tr_def [symmetric]
        by (intro exI [of _ "v0\<lparr>vid := Some (next_id (videos w)), hls_manifest := Some rel\<rparr>"]
            exI [of _ fs'] exI [of _ "flashes w"]) (simp add: v0_def)
    qed
  qed
qed


lemma upload_post_watchD:
  assumes "fst (upload_post e r w) = Redirect_watch n"
  shows "\<exists>fname. file_name r = Some fname \<and> fname \<noteq> [] \<and> allowed_file fname = Inr True
           \<and> save_ok e \<and> commit_ok e"
proof (cases "truthy (file_name r)")
  case False
  then have "fst (upload_post e r w) = Redirect_upload_form"
    by (simp add: upload_post_def upload_try_def Let_def)
  with assms show ?thesis by simp
next
  case True
  then obtain fname where f: "file_name r = Some fname" "fname \<noteq> []"
    by (auto simp: truthy_def split: option.splits)
  then have the: "the (file_name r) = fname" by simp
  show ?thesis
  proof (cases "allowed_file fname")
    case (Inl err)
    then have "fst (upload_post e r w) = Redirect_upload_form"
      unfolding upload_post_def upload_try_def Let_def the using True by simp
    with assms show ?thesis by simp
  next
    case (Inr allowed)
    show ?thesis
    proof (cases allowed)
      case False
      with Inr have "fst (upload_post e r w) = Redirect_upload_form"
        unfolding upload_post_def upload_try_def Let_def the using True by simp
      with assms show ?thesis by simp
    next
      case allowed: True
      show ?thesis
      proof (cases "save_ok e")
        case False
        with Inr allowed have "fst (upload_post e r w) = Redirect_upload_form"
          unfolding upload_post_def upload_try_def Let_def split_def the using True by simp
        with assms show ?thesis by simp
      next
        case save: True
        show ?thesis
        proof (cases "commit_ok e")
          case False
          with Inr allowed save have "fst (upload_post e r w) = Redirect_upload_form"
            unfolding upload_post_def upload_try_def Let_def split_def the using True
            by (simp split del: if_split)
          with assms show ?thesis by simp
        next
          case True
          with f Inr allowed save show ?thesis by simp
        qed
      qed
    qed
  qed
qed

lemma transcode_nonzero:
  assumes "run_ffmpeg e (ffmpeg_cmd input_path target_dir) fs = Exited returncode stderr fs1"
    and "returncode \<noteq> 0"
  shows "transcode_to_hls e input_path target_dir fs
           = (Inl (CalledProcessError returncode stderr), fs1)"
  using assms by (simp add: transcode_to_hls_def Let_def)

lemma upload_post_no_encoder:
  assumes "\<not> ffmpeg_on_path e"
  shows "upload_post (e\<lparr>run_ffmpeg := enc\<rparr>) r w = upload_post e r w"
proof -
  have A: "ffmpeg_exists (e\<lparr>run_ffmpeg := enc\<rparr>) = False" "ffmpeg_exists e = False"
    using assms by (simp_all add: ffmpeg_exists_def)
  have "upload_try (e\<lparr>run_ffmpeg := enc\<rparr>) r w = upload_try e r w"
    unfolding upload_try_def A
    by (simp add: Let_def split_def UPLOAD_DIR_def HLS_DIR_def
        split del: if_split cong del: if_weak_cong cong: sum.case_cong)
  then show ?thesis by (simp add: upload_post_def)
qed

lemma upload_post_watch_row:
  assumes "upload_post e r w = (Redirect_watch n, w')"
  shows "\<exists>fname v. file_name r = Some fname \<and> fname \<noteq> [] \<and> allowed_file fname = Inr True
      \<and> n = next_id (videos w)
      \<and> uploads w' = uploads w @ [reserve (nfkd e) (uploads w) fname]
      \<and> videos w' = videos w @ [v]
      \<and> vid v = Some n
      \<and> title v = strip (or_else (form_title r) ''Sans titre'')
      \<and> category v =
          (if CATEGORIES_MAP (or_else (form_category r) ''tendance'') \<noteq> None
           then or_else (form_category r) ''tendance'' else ''tendance'')
      \<and> filename v = Some (reserve (nfkd e) (uploads w) fname)
      \<and> thumb_url v =
          Some (''https://picsum.photos/seed/mitabo-''
                @ fst (splitext (secure_filename (nfkd e) fname)) @ ''/640/360'')"
proof -
  from assms have "fst (upload_post e r w) = Redirect_watch n" by simp
  from upload_post_watchD [OF this] obtain fname where
    f: "file_name r = Some fname" "fname \<noteq> []" and a: "allowed_file fname = Inr True"
    and s: "save_ok e" and c: "commit_ok e" by blast
  from upload_post_stored [OF f a s c, of w] obtain v fs fl where
    up: "upload_post e r w =
        (Redirect_watch (next_id (videos w)),
         w\<lparr>uploads := uploads w @ [reserve (nfkd e) (uploads w) fname], hls_files := fs,
           videos := videos w @ [v], flashes := fl\<rparr>)"
    and row: "vid v = Some (next_id (videos w))"
      "title v = strip (or_else (form_title r) ''Sans titre'')"
      "category v =
          (if CATEGORIES_MAP (or_else (form_category r) ''tendance'') \<noteq> None
           then or_else (form_category r) ''tendance'' else ''tendance'')"
      "filename v = Some (reserve (nfkd e) (uploads w) fname)"
      "thumb_url v =
          Some (''https://picsum.photos/seed/mitabo-''
                @ fst (splitext (secure_filename (nfkd e) fname)) @ ''/640/360'')"
    by blast
  from up assms have n: "n = next_id (videos w)"
    and w': "w' = w\<lparr>uploads := uploads w @ [reserve (nfkd e) (uploads w) fname],
                   hls_files := fs, videos := videos w @ [v], flashes := fl\<rparr>"
    by simp_all
  have "uploads w' = uploads w @ [reserve (nfkd e) (uploads w) fname]"
    "videos w' = videos w @ [v]"
    by (simp_all add: w')
  with f a n row show ?thesis
    by (intro exI [of _ fname] exI [of _ v]) simp
qed

lemma upload_post_stored_fst:
  assumes "file_name r = Some fname" and "fname \<noteq> []"
    and "allowed_file fname = Inr True"
    and "save_ok e" and "commit_ok e"
  shows "upload_post e r w = (Redirect_watch (next_id (videos w)), snd (upload_post e r w))"
proof -
  from upload_post_stored [OF assms, of w] obtain w' where
    "upload_post e r w = (Redirect_watch (next_id (videos w)), w')" by blast
  then show ?thesis by simp
qed

lemma strip_id:
  assumes "s \<noteq> []" and "\<not> is_space (hd s)" and "\<not> is_space (last s)"
  shows "strip s = s"
proof -
  from assms(1,2) have "dropWhile is_space s = s" by (cases s) simp_all
  moreover from assms(1,3) have "dropWhile is_space (rev s) = rev s"
    by (cases "rev s") (simp_all add: hd_rev [symmetric])
  ultimately show ?thesis by (simp add: strip_def strip_chars_def)
qed

lemma strip_default_title: "strip ''Sans titre'' = ''Sans titre''"
  by code_simp

lemma category_known:
  "CATEGORIES_MAP c \<noteq> None \<longleftrightarrow> c \<in> {''tendance'', ''jeux'', ''musique'', ''film'', ''sport''}"
  by (simp add: CATEGORIES_MAP_def CATEGORIES_def)

lemma reserve_free_name:
  assumes "\<not> path_exists entries (secure_filename nf fname)"
  shows "reserve nf entries fname = secure_filename nf fname"
  using assms
  by (simp add: reserve_def Let_def split_def
      reserve_loop.simps [of entries _ _ "secure_filename nf fname"])

section \<open>Facts about the stored name\<close>

lemma safe_char_examples:
  "safe_char CHR ''-''" "\<not> safe_char CHR ''/''"
  by code_simp+

lemma reserve_name_shape:
  "reserve nf entries fname = secure_filename nf fname
   \<or> (\<exists>k. 1 \<le> k \<and> reserve nf entries fname =
         fst (splitext (secure_filename nf fname)) @ ''-'' @ str_nat k
         @ snd (splitext (secure_filename nf fname)))"
  using reserve_loop_bounded [of entries "fst (splitext (secure_filename nf fname))"
      "snd (splitext (secure_filename nf fname))" "secure_filename nf fname" 1]
  by (auto simp: reserve_def Let_def split_def)

lemma reserve_name_safe:
  "reserve nf entries fname \<noteq> []
   \<and> (\<forall>c\<in>set (reserve nf entries fname). safe_char c)
   \<and> hd (reserve nf entries fname) \<noteq> CHR ''.''"
proof -
  let ?s = "secure_filename nf fname"
  let ?b = "fst (splitext ?s)" and ?x = "snd (splitext ?s)"
  let ?final = "reserve nf entries fname"
  have bx: "?b @ ?x = ?s" by (rule splitext_append) simp
  have "\<not> path_exists entries ?final"
    using reserve_loop_free [of entries ?b ?x ?s 1]
    by (simp add: reserve_def Let_def split_def)
  then have nonempty: "?final \<noteq> []" by (simp add: path_exists_def)
  from reserve_name_shape [of nf entries fname] consider
      (plain) "?final = ?s"
    | (suffix) k where "?final = ?b @ ''-'' @ str_nat k @ ?x" by blast
  then have "(\<forall>c\<in>set ?final. safe_char c) \<and> hd ?final \<noteq> CHR ''.''"
  proof cases
    case plain
    with nonempty secure_filename_hd [of nf fname] secure_filename_safe [of _ nf fname]
    show ?thesis by auto
  next
    case suffix
    have "set ?b \<union> set ?x = set ?s" using bx by (metis set_append)
    then have safe_bx: "\<forall>c \<in> set ?b \<union> set ?x. safe_char c"
      using secure_filename_safe [of _ nf fname] by blast
    have safe: "\<forall>c\<in>set ?final. safe_char c"
      unfolding suffix using safe_bx str_nat_safe [of _ k] safe_char_examples(1) by auto
    have "hd ?final \<noteq> CHR ''.''"
    proof (cases "?b = []")
      case True
      then show ?thesis unfolding suffix by simp
    next
      case False
      then have "hd ?final = hd ?s" unfolding suffix using bx by (metis hd_append2)
      moreover from False bx have "?s \<noteq> []" by auto
      ultimately show ?thesis using secure_filename_hd [of nf fname] by simp
    qed
    with safe show ?thesis by blast
  qed
  with nonempty show ?thesis by blast
qed

lemma UPLOAD_DIR_end: "UPLOAD_DIR e \<noteq> [] \<and> last (UPLOAD_DIR e) \<noteq> CHR ''/''"
  by (simp add: UPLOAD_DIR_def path_join_def)

lemma path_join_plain:
  assumes "a \<noteq> []" and "last a \<noteq> CHR ''/''" and "b \<noteq> []" and "hd b \<noteq> CHR ''/''"
  shows "path_join a b = a @ ''/'' @ b"
proof -
  from assms(3,4) have "take 1 b \<noteq> ''/''" by (cases b) simp_all
  with assms(1,2) show ?thesis by (simp add: path_join_def)
qed

section \<open>Facts about the sample inputs\<close>

lemma sample_facts:
  "file_name sample_request = Some ''a.mp4''" "''a.mp4'' \<noteq> []"
  "save_ok sample_env" "commit_ok sample_env"
  "form_to_hls sample_request \<noteq> None" "ffmpeg_on_path sample_env"
  "form_title sample_request = None" "form_category sample_request = Some ''jeux''"
  "nfkd sample_env = (\<lambda>s. s)" "videos sample_world = []"
  "uploads sample_world = [''hls'', ''a.mp4'']"
  "videos fresh_world = []" "uploads fresh_world = [''hls'']"
  by (simp_all add: sample_request_def sample_env_def sample_world_def fresh_world_def)

lemma sample_allowed: "allowed_file ''a.mp4'' = Inr True"
  by code_simp

lemma sample_reserve:
  "reserve (\<lambda>s. s) [''hls'', ''a.mp4''] ''a.mp4'' = ''a-1.mp4''"
  "reserve (\<lambda>s. s) [''hls''] ''a.mp4'' = ''a.mp4''"
  "secure_filename (\<lambda>s. s) ''a.mp4'' = ''a.mp4''"
  "splitext ''a.mp4'' = (''a'', ''.mp4'')"
  "splitext ''a-1.mp4'' = (''a-1'', ''.mp4'')"
  by code_simp+

lemma sample_next_id: "next_id [] = 1"
  by (simp add: next_id_def)

lemma sample_upload:
  "upload_post sample_env sample_request sample_world
     = (Redirect_watch 1, snd (upload_post sample_env sample_request sample_world))"
  using upload_post_stored_fst [OF sample_facts(1,2) sample_allowed sample_facts(3,4),
      of sample_world]
  by (simp add: sample_facts sample_next_id)

lemma sample_upload_free:
  "upload_post sample_env sample_request fresh_world
     = (Redirect_watch 1,
        snd (upload_post sample_env sample_request fresh_world))"
  using upload_post_stored_fst [OF sample_facts(1,2) sample_allowed sample_facts(3,4),
      of "fresh_world"]
  by (simp add: sample_facts sample_next_id)

lemma bare_facts:
  "save_ok bare_env" "commit_ok bare_env" "\<not> ffmpeg_on_path bare_env"
  "nfkd bare_env = (\<lambda>s. s)"
  by (simp_all add: bare_env_def sample_env_def)

section \<open>What \<^verbatim>\<open>upload_post\<close> writes and answers, in every case\<close>

lemma upload_post_not_committed:
  assumes f: "file_name r = Some fname" "fname \<noteq> []"
    and a: "allowed_file fname = Inr True"
    and s: "save_ok e" and c: "\<not> commit_ok e"
  shows "uploads (snd (upload_post e r w)) = uploads w @ [reserve (nfkd e) (uploads w) fname]"
    and "videos (snd (upload_post e r w)) = videos w"
    and "fst (upload_post e r w) = Redirect_upload_form"
proof -
  define final where "final = reserve (nfkd e) (uploads w) fname"
  define tr where "tr = transcode_to_hls e (path_join (UPLOAD_DIR e) final)
                        (path_join (HLS_DIR e) (''video_'' @ str_nat (utc_timestamp e)))
                        (hls_files w)"
  have final: "final = reserve_loop (uploads w) (fst (splitext (secure_filename (nfkd e) fname)))
                   (snd (splitext (secure_filename (nfkd e) fname)))
                   (secure_filename (nfkd e) fname) 1"
    by (simp add: final_def reserve_def Let_def split_def)
  have pre: "truthy (file_name r)" "the (file_name r) = fname"
    using f by (simp_all add: truthy_def)
  have "\<exists>w'. upload_try e r w = (Inl DatabaseError, w') \<and> uploads w' = uploads w @ [final]
          \<and> videos w' = videos w"
  proof (cases "form_to_hls r \<noteq> None \<and> ffmpeg_on_path e")
    case False
    then have H: "(form_to_hls r \<noteq> None \<and> ffmpeg_exists e) = False"
      by (simp add: ffmpeg_exists_def)
    have "upload_try e r w = (Inl DatabaseError, w\<lparr>uploads := uploads w @ [final]\<rparr>)"
      unfolding upload_try_def Let_def split_def pre H a final [symmetric]
      using s c pre by simp
    then show ?thesis by simp
  next
    case True
    then have H: "(form_to_hls r \<noteq> None \<and> ffmpeg_exists e) = True"
      by (simp add: ffmpeg_exists_def)
    obtain res fs' where t: "tr = (res, fs')" by (cases tr) blast
    have t': "transcode_to_hls e (path_join (UPLOAD_DIR e) final)
                (path_join (HLS_DIR e) (''video_'' @ str_nat (utc_timestamp e)))
                (hls_files (w\<lparr>uploads := uploads w @ [final]\<rparr>)) = (res, fs')"
      using t by (simp add: tr_def)
    show ?thesis
    proof (cases res)
      case (Inl err)
      have "upload_try e r w =
          (Inl DatabaseError,
           w\<lparr>uploads := uploads w @ [final], hls_files := fs',
             flashes := flashes w @ [Transcode_failed]\<rparr>)"
        unfolding upload_try_def Let_def split_def pre H a final [symmetric] t' Inl
        using s c pre by simp
      then show ?thesis by simp
    next
      case (Inr rel)
      have "upload_try e r w =
          (Inl DatabaseError, w\<lparr>uploads := uploads w @ [final], hls_files := fs'\<rparr>)"
        unfolding upload_try_def Let_def split_def pre H a final [symmetric] t' Inr
        using s c pre by simp
      then show ?thesis by simp
    qed
  qed
  then obtain w' where w': "upload_try e r w = (Inl DatabaseError, w')"
    "uploads w' = uploads w @ [final]" "videos w' = videos w" by blast
  from w' show "uploads (snd (upload_post e r w))
                  = uploads w @ [reserve (nfkd e) (uploads w) fname]"
    by (simp add: upload_post_def final_def)
  from w' show "videos (snd (upload_post e r w)) = videos w"
    by (simp add: upload_post_def)
  from w' show "fst (upload_post e r w) = Redirect_upload_form"
    by (simp add: upload_post_def)
qed


lemma upload_post_uploads:
  "uploads (snd (upload_post e r w)) =
     (case file_name r of
        None \<Rightarrow> uploads w
      | Some fname \<Rightarrow>
          if fname \<noteq> [] \<and> allowed_file fname = Inr True \<and> save_ok e
          then uploads w @ [reserve (nfkd e) (uploads w) fname]
          else uploads w)"
proof (cases "truthy (file_name r)")
  case False
  then have "uploads (snd (upload_post e r w)) = uploads w"
    by (simp add: upload_post_def upload_try_def Let_def)
  with False show ?thesis by (auto simp: truthy_def split: option.splits)
next
  case True
  then obtain fname where f: "file_name r = Some fname" "fname \<noteq> []"
    by (auto simp: truthy_def split: option.splits)
  then have the: "the (file_name r) = fname" by simp
  show ?thesis
  proof (cases "allowed_file fname")
    case (Inl err)
    then have "uploads (snd (upload_post e r w)) = uploads w"
      unfolding upload_post_def upload_try_def Let_def the using True by simp
    with f Inl show ?thesis by simp
  next
    case (Inr allowed)
    show ?thesis
    proof (cases allowed)
      case False
      with Inr have "uploads (snd (upload_post e r w)) = uploads w"
        unfolding upload_post_def upload_try_def Let_def the using True by simp
      with f Inr False show ?thesis by simp
    next
      case allowed: True
      show ?thesis
      proof (cases "save_ok e")
        case False
        with Inr allowed have "uploads (snd (upload_post e r w)) = uploads w"
          unfolding upload_post_def upload_try_def Let_def split_def the using True by simp
        with f False show ?thesis by simp
      next
        case save: True
        from Inr allowed have a: "allowed_file fname = Inr True" by simp
        have "uploads (snd (upload_post e r w))
                = uploads w @ [reserve (nfkd e) (uploads w) fname]"
        proof (cases "commit_ok e")
          case False
          from upload_post_not_committed(1) [OF f a save False] show ?thesis .
        next
          case True
          from upload_post_stored [OF f a save True, of w] obtain v fs fl where
            "upload_post e r w =
               (Redirect_watch (next_id (videos w)),
                w\<lparr>uploads := uploads w @ [reserve (nfkd e) (uploads w) fname],
                  hls_files := fs, videos := videos w @ [v], flashes := fl\<rparr>)"
            by blast
          then show ?thesis by simp
        qed
        with f a save show ?thesis by simp
      qed
    qed
  qed
qed

lemma upload_post_answer:
  "fst (upload_post e r w) = Redirect_upload_form
   \<or> (\<exists>fname v. file_name r = Some fname
        \<and> fst (upload_post e r w) = Redirect_watch (next_id (videos w))
        \<and> videos (snd (upload_post e r w)) = videos w @ [v]
        \<and> filename v = Some (reserve (nfkd e) (uploads w) fname))"
proof (cases "fst (upload_post e r w)")
  case Redirect_upload_form
  then show ?thesis by simp
next
  case (Redirect_watch n)
  then have "upload_post e r w = (Redirect_watch n, snd (upload_post e r w))"
    by (metis prod.collapse)
  from upload_post_watch_row [OF this] obtain fname v where
    "file_name r = Some fname" "n = next_id (videos w)"
    "videos (snd (upload_post e r w)) = videos w @ [v]"
    "filename v = Some (reserve (nfkd e) (uploads w) fname)"
    by blast
  with Redirect_watch show ?thesis by blast
qed

lemma nocommit_facts:
  "save_ok nocommit_env" "\<not> commit_ok nocommit_env" "nfkd nocommit_env = (\<lambda>s. s)"
  "UPLOAD_DIR nocommit_env = ''/srv/mitabo/uploads''"
  "UPLOAD_DIR sample_env = ''/srv/mitabo/uploads''"
  by (simp_all add: nocommit_env_def sample_env_def UPLOAD_DIR_def path_join_def)

section \<open>Facts about paths\<close>

lemma split_on_nonempty: "split_on sep s \<noteq> []"
  by (induction s) (auto split: list.splits)

lemma split_on_no_sep: "sep \<notin> set s \<Longrightarrow> split_on sep s = [s]"
  by (induction s) auto

lemma split_on_append:
  "split_on sep (a @ sep # b) = split_on sep a @ split_on sep b"
proof (induction a)
  case Nil
  show ?case by simp
next
  case (Cons c cs)
  show ?case
  proof (cases "c = sep")
    case True
    with Cons show ?thesis by simp
  next
    case False
    obtain y ys where y: "split_on sep cs = y # ys"
      using split_on_nonempty [of sep cs] by (cases "split_on sep cs") auto
    with False Cons show ?thesis by simp
  qed
qed

lemma split_on_no_sep_in_parts: "x \<in> set (split_on sep s) \<Longrightarrow> sep \<notin> set x"
proof (induction s arbitrary: x)
  case Nil
  then show ?case by simp
next
  case (Cons c cs)
  obtain y ys where y: "split_on sep cs = y # ys"
    using split_on_nonempty [of sep cs] by (cases "split_on sep cs") auto
  show ?case
  proof (cases "c = sep")
    case True
    with Cons show ?thesis by auto
  next
    case False
    with Cons.prems y have "x = c # y \<or> x \<in> set ys" by simp
    then show ?thesis
    proof
      assume "x = c # y"
      moreover have "sep \<notin> set y" using Cons.IH [of y] y by simp
      ultimately show ?thesis using False by simp
    next
      assume "x \<in> set ys"
      then show ?thesis using Cons.IH [of x] y by simp
    qed
  qed
qed

lemma split_join_parts:
  assumes "\<forall>x\<in>set xs. x \<noteq> [] \<and> CHR ''/'' \<notin> set x"
  shows "filter (\<lambda>x. x \<noteq> []) (split_on CHR ''/'' (join_with ''/'' xs)) = xs"
  using assms
proof (induction xs rule: induct_list012)
  case 1
  show ?case by simp
next
  case (2 x)
  then show ?case by (simp add: split_on_no_sep)
next
  case (3 x y ys)
  have "join_with ''/'' (x # y # ys) = x @ CHR ''/'' # join_with ''/'' (y # ys)" by simp
  then have "split_on CHR ''/'' (join_with ''/'' (x # y # ys))
             = [x] @ split_on CHR ''/'' (join_with ''/'' (y # ys))"
    using "3.prems" by (simp only: split_on_append) (simp add: split_on_no_sep)
  with 3 show ?case by simp
qed

lemma split_leading_slashes:
  "filter (\<lambda>x. x \<noteq> []) (split_on CHR ''/'' (replicate k CHR ''/'' @ t))
   = filter (\<lambda>x. x \<noteq> []) (split_on CHR ''/'' t)"
  by (induction k) simp_all


lemma norm_step_cases:
  "norm_step k acc part = acc
   \<or> (norm_step k acc part = acc @ [part] \<and> part \<noteq> [])
   \<or> norm_step k acc part = butlast acc"
  unfolding norm_step_def by (cases "part = []") simp_all

lemma norm_step_parts:
  assumes "\<forall>x\<in>set acc. x \<noteq> [] \<and> CHR ''/'' \<notin> set x" and "CHR ''/'' \<notin> set part"
  shows "\<forall>x\<in>set (norm_step k acc part). x \<noteq> [] \<and> CHR ''/'' \<notin> set x"
proof -
  from norm_step_cases [of k acc part] consider
      "norm_step k acc part = acc"
    | "norm_step k acc part = acc @ [part]" "part \<noteq> []"
    | "norm_step k acc part = butlast acc" by blast
  then show ?thesis
  proof cases
    case 1
    with assms(1) show ?thesis by simp
  next
    case 2
    with assms show ?thesis by simp
  next
    case 3
    have "set (butlast acc) \<subseteq> set acc" by (auto dest: in_set_butlastD)
    with assms(1) 3 show ?thesis by auto
  qed
qed

lemma norm_fold_parts:
  assumes "\<forall>x\<in>set acc. x \<noteq> [] \<and> CHR ''/'' \<notin> set x"
    and "\<forall>p\<in>set parts. CHR ''/'' \<notin> set p"
  shows "\<forall>x\<in>set (foldl (norm_step k) acc parts). x \<noteq> [] \<and> CHR ''/'' \<notin> set x"
  using assms
proof (induction parts arbitrary: acc)
  case Nil
  then show ?case by simp
next
  case (Cons p ps)
  from Cons.prems have step: "\<forall>x\<in>set (norm_step k acc p). x \<noteq> [] \<and> CHR ''/'' \<notin> set x"
    by (intro norm_step_parts) simp_all
  from Cons.prems have rest: "\<forall>p\<in>set ps. CHR ''/'' \<notin> set p" by simp
  have "\<forall>x\<in>set (foldl (norm_step k) (norm_step k acc p) ps). x \<noteq> [] \<and> CHR ''/'' \<notin> set x"
    using step rest by (rule Cons.IH)
  then show ?case by simp
qed

lemma normpath_parts:
  assumes "take 1 path = ''/''"
  shows "filter (\<lambda>x. x \<noteq> []) (split_on CHR ''/'' (normpath path))
            = foldl (norm_step (slashes path)) [] (split_on CHR ''/'' path)"
proof -
  define parts where "parts = foldl (norm_step (slashes path)) [] (split_on CHR ''/'' path)"
  from assms have ne: "path \<noteq> []" by auto
  have "0 < slashes path" by (simp add: slashes_def)
  then have "replicate (slashes path) CHR ''/'' @ join_with ''/'' parts \<noteq> []" by simp
  with ne assms
  have n: "normpath path = replicate (slashes path) CHR ''/'' @ join_with ''/'' parts"
    by (simp add: normpath_def Let_def slashes_def parts_def)
  have good: "\<forall>x\<in>set parts. x \<noteq> [] \<and> CHR ''/'' \<notin> set x"
    unfolding parts_def
    by (rule norm_fold_parts) (auto dest: split_on_no_sep_in_parts)
  have "filter (\<lambda>x. x \<noteq> []) (split_on CHR ''/'' (normpath path)) = parts"
    unfolding n split_leading_slashes using good by (rule split_join_parts)
  then show ?thesis unfolding parts_def .
qed

lemma common_prefix_append: "common_prefix xs (xs @ ys) = xs"
  by (induction xs) simp_all

lemma relpath_child:
  assumes abs: "take 1 H = ''/''" and len: "3 \<le> length H" and last: "last H \<noteq> CHR ''/''"
    and d: "d \<noteq> []" "CHR ''/'' \<notin> set d" "d \<noteq> ''.''" "d \<noteq> ''..''"
    and m: "m \<noteq> []" "CHR ''/'' \<notin> set m" "m \<noteq> ''.''" "m \<noteq> ''..''"
  shows "path_join (path_join H d) m = H @ ''/'' @ d @ ''/'' @ m"
    and "relpath wd (H @ ''/'' @ d @ ''/'' @ m) H = Inr (d @ ''/'' @ m)"
proof -
  from abs have Hne: "H \<noteq> []" by auto
  from d(1,2) have hd_d: "hd d \<noteq> CHR ''/''" by (cases d) auto
  from m(1,2) have hd_m: "hd m \<noteq> CHR ''/''" by (cases m) auto
  have last_d: "last d \<noteq> CHR ''/''"
    using d(2) last_in_set [OF d(1)] by auto
  have j1: "path_join H d = H @ ''/'' @ d"
    using Hne last d(1) hd_d by (rule path_join_plain)
  have "path_join (H @ ''/'' @ d) m = (H @ ''/'' @ d) @ ''/'' @ m"
    using d(1) last_d m(1) hd_m by (intro path_join_plain) simp_all
  with j1 show "path_join (path_join H d) m = H @ ''/'' @ d @ ''/'' @ m" by simp
  let ?P = "H @ ''/'' @ d @ ''/'' @ m"
  have absP: "take 1 ?P = ''/''" using abs Hne by (cases H) simp_all
  note sH = normpath_parts [OF abs]
  note sP = normpath_parts [OF absP]
  from len have "take 2 ?P = take 2 H" "take 3 ?P = take 3 H" by simp_all
  then have kk: "slashes ?P = slashes H" by (simp only: slashes_def)
  have "split_on CHR ''/'' ?P = split_on CHR ''/'' H @ split_on CHR ''/'' (d @ CHR ''/'' # m)"
    using split_on_append [of "CHR ''/''" H "d @ CHR ''/'' # m"] by simp
  also have "split_on CHR ''/'' (d @ CHR ''/'' # m) = [d, m]"
    using d(2) m(2) by (simp add: split_on_append split_on_no_sep)
  finally have parts: "split_on CHR ''/'' ?P = split_on CHR ''/'' H @ [d, m]" .
  have step: "norm_step k acc d = acc @ [d]" "norm_step k acc m = acc @ [m]" for k acc
    using d m by (simp_all add: norm_step_def)
  define S where "S = foldl (norm_step (slashes H)) [] (split_on CHR ''/'' H)"
  have list: "foldl (norm_step (slashes ?P)) [] (split_on CHR ''/'' ?P) = S @ [d, m]"
    unfolding parts kk S_def by (simp add: step)
  have aH: "abspath wd H = normpath H"
    using abs by (simp add: abspath_def)
  have aP: "abspath wd ?P = normpath ?P"
    using absP by (simp add: abspath_def)
  have start_list: "filter (\<lambda>x. x \<noteq> []) (split_on CHR ''/'' (abspath wd H)) = S"
    unfolding aH sH S_def ..
  have path_list: "filter (\<lambda>x. x \<noteq> []) (split_on CHR ''/'' (abspath wd ?P)) = S @ [d, m]"
    unfolding aP sP list ..
  have join: "path_join d m = d @ ''/'' @ m"
    using d(1) last_d m(1) hd_m by (rule path_join_plain)
  have Pne: "(?P = []) = False" using Hne by simp
  have "relpath wd ?P H = Inr (foldl path_join d [m])"
    unfolding relpath_def Let_def start_list path_list Pne
    by (simp add: common_prefix_append)
  then show "relpath wd ?P H = Inr (d @ ''/'' @ m)"
    by (simp only: foldl.simps join)
qed

lemma relpath_total:
  "path \<noteq> [] \<Longrightarrow> \<exists>rel. relpath wd path start = Inr rel"
  by (simp add: relpath_def Let_def split: list.splits)

lemma path_join_nonempty: "b \<noteq> [] \<Longrightarrow> path_join a b \<noteq> []"
  by (simp add: path_join_def)

lemma replace_char_gone: "a \<noteq> b \<Longrightarrow> a \<notin> set (replace_char a b s)"
  by (auto simp: replace_char_def)

lemma replace_char_id: "a \<notin> set s \<Longrightarrow> replace_char a b s = s"
  by (induction s) (auto simp: replace_char_def)

lemma HLS_DIR_shape:
  "HLS_DIR e = UPLOAD_DIR e @ ''/hls''"
  "3 \<le> length (HLS_DIR e)" "last (HLS_DIR e) \<noteq> CHR ''/''"
proof -
  show 1: "HLS_DIR e = UPLOAD_DIR e @ ''/hls''"
    using UPLOAD_DIR_end [of e] by (simp add: HLS_DIR_def path_join_plain)
  show "3 \<le> length (HLS_DIR e)" by (simp add: 1)
  show "last (HLS_DIR e) \<noteq> CHR ''/''" by (simp add: 1)
qed

lemma HLS_DIR_absolute:
  assumes "take 1 (BASE_DIR e) = ''/''"
  shows "take 1 (HLS_DIR e) = ''/''"
proof -
  from assms obtain rest where b: "BASE_DIR e = CHR ''/'' # rest"
    by (cases "BASE_DIR e") simp_all
  then have "take 1 (UPLOAD_DIR e) = ''/''"
    by (simp add: UPLOAD_DIR_def path_join_def)
  moreover have "UPLOAD_DIR e \<noteq> []" using UPLOAD_DIR_end [of e] by simp
  ultimately show ?thesis
    by (cases "UPLOAD_DIR e") (simp_all add: HLS_DIR_shape(1))
qed

lemma master_lines:
  "split_on (CHR 0x0A) master_text =
     [''#EXTM3U'', ''#EXT-X-VERSION:3'',
      ''#EXT-X-STREAM-INF:BANDWIDTH=800000,RESOLUTION=640x360'', ''v0/index.m3u8'',
      ''#EXT-X-STREAM-INF:BANDWIDTH=2500000,RESOLUTION=1280x720'', ''v1/index.m3u8'', []]"
  "playlist_uris master_text = [''v0/index.m3u8'', ''v1/index.m3u8'']"
  by code_simp+


section \<open>The extension gate\<close>

text \<open>
  Claim C2. \<open>allowed_file\<close> never raises, and it accepts a filename exactly when the
  filename has a dot and the part after its last dot, lowercased, is one of
  \<open>mp4\<close>, \<open>webm\<close>, \<open>ogg\<close>, \<open>mov\<close>, \<open>m4v\<close>: the filename is \<open>base.ext\<close> with no dot in \<open>ext\<close>
  and \<open>lower ext\<close> in the allow-list. \<open>clip.MP4\<close> is accepted, \<open>clip.exe\<close> and \<open>noext\<close>
  are rejected.
\<close>

theorem allowed_file_extension_gate:
  "allowed_file fname =
     Inr (\<exists>base ext. fname = base @ ''.'' @ ext \<and> CHR ''.'' \<notin> set ext
            \<and> lower ext \<in> {''mp4'', ''webm'', ''ogg'', ''mov'', ''m4v''})
   \<and> allowed_file ''clip.MP4'' = Inr True
   \<and> allowed_file ''clip.exe'' = Inr False
   \<and> allowed_file ''noext'' = Inr False"
proof (intro conjI)
  show "allowed_file fname =
     Inr (\<exists>base ext. fname = base @ ''.'' @ ext \<and> CHR ''.'' \<notin> set ext
            \<and> lower ext \<in> {''mp4'', ''webm'', ''ogg'', ''mov'', ''m4v''})"
  proof (cases "CHR ''.'' \<in> set fname")
    case True
    from rsplit1_dot [OF True] obtain b a where
      ba: "rsplit1 CHR ''.'' fname = [b, a]" "fname = b @ CHR ''.'' # a"
          "CHR ''.'' \<notin> set a" by blast
    have "(\<exists>base ext. fname = base @ ''.'' @ ext \<and> CHR ''.'' \<notin> set ext
            \<and> lower ext \<in> ALLOWED_EXTENSIONS) \<longleftrightarrow> lower a \<in> ALLOWED_EXTENSIONS"
    proof
      assume "\<exists>base ext. fname = base @ ''.'' @ ext \<and> CHR ''.'' \<notin> set ext
            \<and> lower ext \<in> ALLOWED_EXTENSIONS"
      then obtain base ext where
        e: "fname = base @ CHR ''.'' # ext" "CHR ''.'' \<notin> set ext"
           "lower ext \<in> ALLOWED_EXTENSIONS" by auto
      from ba(2) e(1) have "b @ CHR ''.'' # a = base @ CHR ''.'' # ext" by simp
      from last_dot_unique [OF this ba(3) e(2)] e(3)
      show "lower a \<in> ALLOWED_EXTENSIONS" by simp
    next
      assume "lower a \<in> ALLOWED_EXTENSIONS"
      with ba show "\<exists>base ext. fname = base @ ''.'' @ ext \<and> CHR ''.'' \<notin> set ext
            \<and> lower ext \<in> ALLOWED_EXTENSIONS" by auto
    qed
    with True ba(1) show ?thesis
      by (simp add: allowed_file_def index_def ALLOWED_EXTENSIONS_def)
  next
    case False
    then have "\<not> (\<exists>base ext. fname = base @ ''.'' @ ext)" by auto
    with False show ?thesis by (auto simp: allowed_file_def)
  qed
  show "allowed_file ''clip.MP4'' = Inr True"
    by code_simp
  show "allowed_file ''clip.exe'' = Inr False"
    by code_simp
  show "allowed_file ''noext'' = Inr False"
    by code_simp
qed

section \<open>The playback locator\<close>

text \<open>
  Claim C1. \<open>source_url\<close> is a total function of the row, and it follows a strict order.
  A field counts as set when it holds a non-empty string, as the code tests it. When
  \<open>hls_manifest\<close> is set the result is the URL of the \<open>hls\<close> route for it, whatever the other
  fields hold; otherwise, when \<open>filename\<close> is set, the URL of the \<open>media\<close> route for it;
  otherwise \<open>external_url\<close> as it is when it has a value; otherwise the empty string.
\<close>

theorem source_url_priority:
  "(hls_manifest v = Some m \<and> m \<noteq> [] \<longrightarrow> source_url url_for v = url_for ''hls'' m)
   \<and> (\<not> truthy (hls_manifest v) \<and> filename v = Some f \<and> f \<noteq> []
        \<longrightarrow> source_url url_for v = url_for ''media'' f)
   \<and> (\<not> truthy (hls_manifest v) \<and> \<not> truthy (filename v) \<and> external_url v = Some u
        \<longrightarrow> source_url url_for v = u)
   \<and> (\<not> truthy (hls_manifest v) \<and> \<not> truthy (filename v) \<and> external_url v = None
        \<longrightarrow> source_url url_for v = [])"
  by (auto simp: source_url_def truthy_def or_else_def split: option.splits)

theorem source_url_priority_witness:
  "source_url (\<lambda>endpoint f. ''/'' @ endpoint @ ''/'' @ f)
       (sample_video\<lparr>hls_manifest := Some ''video_1/master.m3u8'', filename := Some ''a.mp4'',
                      external_url := Some ''https://example.org/a.mp4''\<rparr>)
     = ''/hls/video_1/master.m3u8''
   \<and> source_url (\<lambda>endpoint f. ''/'' @ endpoint @ ''/'' @ f)
       (sample_video\<lparr>filename := Some ''a.mp4'',
                      external_url := Some ''https://example.org/a.mp4''\<rparr>)
     = ''/media/a.mp4''
   \<and> source_url (\<lambda>endpoint f. ''/'' @ endpoint @ ''/'' @ f)
       (sample_video\<lparr>external_url := Some ''https://example.org/a.mp4''\<rparr>)
     = ''https://example.org/a.mp4''
   \<and> source_url (\<lambda>endpoint f. ''/'' @ endpoint @ ''/'' @ f) sample_video = []"
  using
    source_url_priority [of "sample_video\<lparr>hls_manifest := Some ''video_1/master.m3u8'',
        filename := Some ''a.mp4'', external_url := Some ''https://example.org/a.mp4''\<rparr>"
      "''video_1/master.m3u8''" "\<lambda>endpoint f. ''/'' @ endpoint @ ''/'' @ f"]
    source_url_priority [of "sample_video\<lparr>filename := Some ''a.mp4'',
        external_url := Some ''https://example.org/a.mp4''\<rparr>" _
      "\<lambda>endpoint f. ''/'' @ endpoint @ ''/'' @ f" "''a.mp4''"]
    source_url_priority [of "sample_video\<lparr>external_url := Some ''https://example.org/a.mp4''\<rparr>"
      _ "\<lambda>endpoint f. ''/'' @ endpoint @ ''/'' @ f" _ "''https://example.org/a.mp4''"]
    source_url_priority [of sample_video _ "\<lambda>endpoint f. ''/'' @ endpoint @ ''/'' @ f"]
  by (simp add: sample_video_def truthy_def)

section \<open>The storage namer\<close>

text \<open>
  Claim C3. With a Unicode normalisation that leaves the ASCII name \<open>a.mp4\<close> as it is,
  reserving \<open>a.mp4\<close> in an empty upload root gives \<open>a.mp4\<close>; with \<open>a.mp4\<close> present it
  gives \<open>a-1.mp4\<close>; with \<open>a.mp4\<close> and \<open>a-1.mp4\<close> present it gives \<open>a-2.mp4\<close>.
\<close>

theorem reserve_collision_names:
  assumes "nf ''a.mp4'' = ''a.mp4''"
  shows "reserve nf [] ''a.mp4'' = ''a.mp4''
       \<and> reserve nf [''a.mp4''] ''a.mp4'' = ''a-1.mp4''
       \<and> reserve nf [''a.mp4'', ''a-1.mp4''] ''a.mp4'' = ''a-2.mp4''"
proof -
  have "secure_filename nf ''a.mp4'' = secure_filename (\<lambda>s. s) ''a.mp4''"
    by (simp add: secure_filename_def assms)
  then have eq: "reserve nf entries ''a.mp4'' = reserve (\<lambda>s. s) entries ''a.mp4''" for entries
    by (simp add: reserve_def)
  have "reserve (\<lambda>s. s) [] ''a.mp4'' = ''a.mp4''" by code_simp
  moreover have "reserve (\<lambda>s. s) [''a.mp4''] ''a.mp4'' = ''a-1.mp4''" by code_simp
  moreover have "reserve (\<lambda>s. s) [''a.mp4'', ''a-1.mp4''] ''a.mp4'' = ''a-2.mp4''" by code_simp
  ultimately show ?thesis by (simp only: eq)
qed

theorem reserve_collision_names_witness:
  "(\<lambda>s. s) ''a.mp4'' = ''a.mp4''
   \<and> reserve (\<lambda>s. s) [] ''a.mp4'' = ''a.mp4''
   \<and> reserve (\<lambda>s. s) [''a.mp4''] ''a.mp4'' = ''a-1.mp4''
   \<and> reserve (\<lambda>s. s) [''a.mp4'', ''a-1.mp4''] ''a.mp4'' = ''a-2.mp4''"
  using reserve_collision_names [of "\<lambda>s. s"] by simp

section \<open>Transcoding and the upload\<close>

text \<open>
  Claim C4. Take an upload that passes the extension gate and whose file and row are
  stored without error. If transcoding is requested, the encoder is found and its run exits
  with a non-zero code, so that \<open>transcode_to_hls\<close> raises, then the upload still succeeds:
  the answer is the redirect to the watch page of the new row, the row is committed with
  \<open>filename\<close> set and \<open>hls_manifest\<close> unset, and no upload error is flashed (the only message
  says that direct playback is used).
\<close>

theorem transcode_failure_keeps_upload:
  assumes "file_name r = Some fname" and "fname \<noteq> []"
    and "allowed_file fname = Inr True"
    and "save_ok e" and "commit_ok e"
    and "form_to_hls r \<noteq> None" and "ffmpeg_on_path e"
    and "run_ffmpeg e
           (ffmpeg_cmd (path_join (UPLOAD_DIR e) (reserve (nfkd e) (uploads w) fname))
                       (path_join (HLS_DIR e) (''video_'' @ str_nat (utc_timestamp e))))
           (hls_files w) = Exited returncode stderr fs1"
    and "returncode \<noteq> 0"
  shows "\<exists>v w'. upload_post e r w = (Redirect_watch (next_id (videos w)), w')
           \<and> videos w' = videos w @ [v]
           \<and> filename v = Some (reserve (nfkd e) (uploads w) fname)
           \<and> hls_manifest v = None
           \<and> flashes w' = flashes w @ [Transcode_failed]"
proof -
  from upload_post_stored [OF assms(1-5), of w] obtain v fs fl where
    up: "upload_post e r w =
        (Redirect_watch (next_id (videos w)),
         w\<lparr>uploads := uploads w @ [reserve (nfkd e) (uploads w) fname], hls_files := fs,
           videos := videos w @ [v], flashes := fl\<rparr>)"
    and fn: "filename v = Some (reserve (nfkd e) (uploads w) fname)"
    and st: "(hls_manifest v, fs, fl) =
          (if form_to_hls r \<noteq> None \<and> ffmpeg_on_path e
           then (case transcode_to_hls e
                        (path_join (UPLOAD_DIR e) (reserve (nfkd e) (uploads w) fname))
                        (path_join (HLS_DIR e) (''video_'' @ str_nat (utc_timestamp e)))
                        (hls_files w) of
                   (Inr rel, fs') \<Rightarrow> (Some rel, fs', flashes w)
                 | (Inl err, fs') \<Rightarrow> (None, fs', flashes w @ [Transcode_failed]))
           else (None, hls_files w, flashes w))"
    by blast
  from st assms(6,7) transcode_nonzero [OF assms(8,9)]
  have "hls_manifest v = None" "fl = flashes w @ [Transcode_failed]" by simp_all
  with up fn show ?thesis by simp
qed

theorem transcode_failure_keeps_upload_witness:
  "\<exists>v w'. upload_post sample_env sample_request sample_world = (Redirect_watch 1, w')
      \<and> videos w' = [v] \<and> filename v = Some ''a-1.mp4'' \<and> hls_manifest v = None
      \<and> flashes w' = [Transcode_failed]"
proof -
  have run: "run_ffmpeg sample_env
           (ffmpeg_cmd (path_join (UPLOAD_DIR sample_env)
                          (reserve (nfkd sample_env) (uploads sample_world) ''a.mp4''))
                       (path_join (HLS_DIR sample_env)
                          (''video_'' @ str_nat (utc_timestamp sample_env))))
           (hls_files sample_world)
         = Exited 1 ''Invalid data found when processing input'' (hls_files sample_world)"
    by (simp add: sample_env_def)
  have nz: "(1::int) \<noteq> 0" by simp
  from transcode_failure_keeps_upload [OF sample_facts(1,2) sample_allowed sample_facts(3-6)
      run nz]
  obtain v w' where
    "upload_post sample_env sample_request sample_world
       = (Redirect_watch (next_id (videos sample_world)), w')"
    "videos w' = videos sample_world @ [v]"
    "filename v = Some (reserve (nfkd sample_env) (uploads sample_world) ''a.mp4'')"
    "hls_manifest v = None"
    "flashes w' = flashes sample_world @ [Transcode_failed]"
    by blast
  then have "upload_post sample_env sample_request sample_world = (Redirect_watch 1, w')"
    "videos w' = [v]" "filename v = Some ''a-1.mp4''" "hls_manifest v = None"
    "flashes w' = [Transcode_failed]"
    by (simp_all add: sample_facts sample_reserve sample_next_id sample_world_def)
  then show ?thesis by blast
qed

text \<open>
  Claim C5. If the run of the encoder ends with exit code 0 and the master manifest is
  absent afterwards, \<open>transcode_to_hls\<close> writes the master manifest itself and raises
  nothing. The file that it writes has, after the two header lines, one
  \<open>#EXT-X-STREAM-INF\<close> line with bandwidth and resolution before each of the two rendition
  manifests \<open>v0/index.m3u8\<close> and \<open>v1/index.m3u8\<close>, which are its only URI lines. The value
  returned is the path of the master manifest relative to the streaming root, as
  \<^verbatim>\<open>os.path.relpath\<close> gives it, with every backslash replaced by a slash, so that no
  backslash is left. For a target directory \<open>d\<close> placed directly in the streaming root of
  an application whose directory is an absolute path, as \<open>upload_post\<close> passes it, the
  value is \<open>d/master.m3u8\<close>.
\<close>

theorem master_manifest_synthesis:
  assumes run: "run_ffmpeg e (ffmpeg_cmd input_path target_dir) fs = Exited 0 stderr fs1"
    and absent: "fs1 (path_join target_dir ''master.m3u8'') = None"
  shows "\<exists>rel. relpath (cwd e) (path_join target_dir ''master.m3u8'') (HLS_DIR e) = Inr rel
      \<and> transcode_to_hls e input_path target_dir fs
          = (Inr (replace_char (CHR 0x5C) CHR ''/'' rel),
             fs1(path_join target_dir ''master.m3u8'' \<mapsto> master_text))
      \<and> CHR 0x5C \<notin> set (replace_char (CHR 0x5C) CHR ''/'' rel)
      \<and> (\<forall>d. take 1 (BASE_DIR e) = ''/'' \<and> target_dir = path_join (HLS_DIR e) d
               \<and> d \<noteq> [] \<and> CHR ''/'' \<notin> set d \<and> CHR 0x5C \<notin> set d
               \<and> d \<noteq> ''.'' \<and> d \<noteq> ''..''
             \<longrightarrow> replace_char (CHR 0x5C) CHR ''/'' rel = d @ ''/master.m3u8'')
      \<and> split_on (CHR 0x0A) master_text =
          [''#EXTM3U'', ''#EXT-X-VERSION:3'',
           ''#EXT-X-STREAM-INF:BANDWIDTH=800000,RESOLUTION=640x360'', ''v0/index.m3u8'',
           ''#EXT-X-STREAM-INF:BANDWIDTH=2500000,RESOLUTION=1280x720'', ''v1/index.m3u8'', []]
      \<and> playlist_uris master_text = [''v0/index.m3u8'', ''v1/index.m3u8'']"
proof -
  let ?master = "path_join target_dir ''master.m3u8''"
  have "?master \<noteq> []" by (rule path_join_nonempty) simp
  from relpath_total [OF this] obtain rel where
    rel: "relpath (cwd e) ?master (HLS_DIR e) = Inr rel" by blast
  have outcome: "transcode_to_hls e input_path target_dir fs
          = (Inr (replace_char (CHR 0x5C) CHR ''/'' rel), fs1(?master \<mapsto> master_text))"
    unfolding transcode_to_hls_def Let_def run using absent rel by simp
  have noback: "CHR 0x5C \<notin> set (replace_char (CHR 0x5C) CHR ''/'' rel)"
    by (rule replace_char_gone) simp
  have child: "\<forall>d. take 1 (BASE_DIR e) = ''/'' \<and> target_dir = path_join (HLS_DIR e) d
               \<and> d \<noteq> [] \<and> CHR ''/'' \<notin> set d \<and> CHR 0x5C \<notin> set d
               \<and> d \<noteq> ''.'' \<and> d \<noteq> ''..''
             \<longrightarrow> replace_char (CHR 0x5C) CHR ''/'' rel = d @ ''/master.m3u8''"
  proof (intro allI impI, elim conjE)
    fix d
    assume base: "take 1 (BASE_DIR e) = ''/''" and t: "target_dir = path_join (HLS_DIR e) d"
      and d: "d \<noteq> []" "CHR ''/'' \<notin> set d" "d \<noteq> ''.''" "d \<noteq> ''..''"
      and nb: "CHR 0x5C \<notin> set d"
    have m: "''master.m3u8'' \<noteq> []" "CHR ''/'' \<notin> set ''master.m3u8''"
      "''master.m3u8'' \<noteq> ''.''" "''master.m3u8'' \<noteq> ''..''"
      by simp_all
    note c = relpath_child [OF HLS_DIR_absolute [OF base] HLS_DIR_shape(2,3) d m]
    from c(1) have "?master = HLS_DIR e @ ''/'' @ d @ ''/'' @ ''master.m3u8''"
      by (simp only: t)
    with c(2) [of "cwd e"] have "relpath (cwd e) ?master (HLS_DIR e) = Inr (d @ ''/'' @ ''master.m3u8'')"
      by (simp only:)
    with rel have r: "rel = d @ ''/master.m3u8''" by simp
    have "CHR 0x5C \<notin> set (d @ ''/master.m3u8'')" using nb by simp
    then have "replace_char (CHR 0x5C) CHR ''/'' (d @ ''/master.m3u8'') = d @ ''/master.m3u8''"
      by (rule replace_char_id)
    then show "replace_char (CHR 0x5C) CHR ''/'' rel = d @ ''/master.m3u8''"
      unfolding r .
  qed
  show ?thesis
    by (rule exI [of _ rel]) (intro conjI rel outcome noback child master_lines)
qed


theorem master_manifest_synthesis_witness:
  "fst (transcode_to_hls quiet_env ''/srv/mitabo/uploads/a.mp4''
          ''/srv/mitabo/uploads/hls/video_1700000000'' Map.empty)
     = Inr ''video_1700000000/master.m3u8''
   \<and> snd (transcode_to_hls quiet_env ''/srv/mitabo/uploads/a.mp4''
          ''/srv/mitabo/uploads/hls/video_1700000000'' Map.empty)
        ''/srv/mitabo/uploads/hls/video_1700000000/master.m3u8''
     = Some master_text"
proof -
  let ?t = "''/srv/mitabo/uploads/hls/video_1700000000''"
  have run: "run_ffmpeg quiet_env (ffmpeg_cmd ''/srv/mitabo/uploads/a.mp4'' ?t) Map.empty
               = Exited 0 [] Map.empty"
    by (simp add: quiet_env_def)
  have absent: "(Map.empty :: string \<rightharpoonup> string) (path_join ?t ''master.m3u8'') = None"
    by simp
  have base: "take 1 (BASE_DIR quiet_env) = ''/''"
    by (simp add: quiet_env_def sample_env_def)
  have hls: "HLS_DIR quiet_env = ''/srv/mitabo/uploads/hls''"
    by (simp add: HLS_DIR_def UPLOAD_DIR_def path_join_def quiet_env_def sample_env_def)
  have t: "?t = path_join (HLS_DIR quiet_env) ''video_1700000000''"
    by (simp add: hls path_join_def)
  have m: "path_join ?t ''master.m3u8'' = ''/srv/mitabo/uploads/hls/video_1700000000/master.m3u8''"
    by (simp add: path_join_def)
  from master_manifest_synthesis [OF run absent] obtain rel where
    out: "transcode_to_hls quiet_env ''/srv/mitabo/uploads/a.mp4'' ?t Map.empty
          = (Inr (replace_char (CHR 0x5C) CHR ''/'' rel),
             Map.empty(path_join ?t ''master.m3u8'' \<mapsto> master_text))"
    and child: "\<forall>d. take 1 (BASE_DIR quiet_env) = ''/'' \<and> ?t = path_join (HLS_DIR quiet_env) d
               \<and> d \<noteq> [] \<and> CHR ''/'' \<notin> set d \<and> CHR 0x5C \<notin> set d
               \<and> d \<noteq> ''.'' \<and> d \<noteq> ''..''
             \<longrightarrow> replace_char (CHR 0x5C) CHR ''/'' rel = d @ ''/master.m3u8''"
    by (elim exE conjE)
  have "''video_1700000000'' \<noteq> [] \<and> CHR ''/'' \<notin> set ''video_1700000000''
        \<and> CHR 0x5C \<notin> set ''video_1700000000''
        \<and> ''video_1700000000'' \<noteq> ''.'' \<and> ''video_1700000000'' \<noteq> ''..''"
    by simp
  with child base t
  have "replace_char (CHR 0x5C) CHR ''/'' rel = ''video_1700000000'' @ ''/master.m3u8''"
    by blast
  with out m show ?thesis by simp
qed

text \<open>
  Claim C6. Take an upload that passes the extension gate and whose file and row are
  stored without error. If transcoding is requested and the encoder is not on the path,
  then the encoder is never run (the outcome is the same whatever the encoder would do),
  nothing is flashed, no file below the streaming root changes, and the upload succeeds
  with a row that has no manifest.
\<close>

theorem missing_encoder_skips_transcoding:
  assumes "file_name r = Some fname" and "fname \<noteq> []"
    and "allowed_file fname = Inr True"
    and "save_ok e" and "commit_ok e"
    and "form_to_hls r \<noteq> None" and "\<not> ffmpeg_on_path e"
  shows "\<exists>v w'. upload_post e r w = (Redirect_watch (next_id (videos w)), w')
           \<and> videos w' = videos w @ [v]
           \<and> filename v = Some (reserve (nfkd e) (uploads w) fname)
           \<and> hls_manifest v = None
           \<and> hls_files w' = hls_files w
           \<and> flashes w' = flashes w
           \<and> (\<forall>enc. upload_post (e\<lparr>run_ffmpeg := enc\<rparr>) r w = upload_post e r w)"
proof -
  from upload_post_stored [OF assms(1-5), of w] obtain v fs fl where
    up: "upload_post e r w =
        (Redirect_watch (next_id (videos w)),
         w\<lparr>uploads := uploads w @ [reserve (nfkd e) (uploads w) fname], hls_files := fs,
           videos := videos w @ [v], flashes := fl\<rparr>)"
    and fn: "filename v = Some (reserve (nfkd e) (uploads w) fname)"
    and st: "(hls_manifest v, fs, fl) =
          (if form_to_hls r \<noteq> None \<and> ffmpeg_on_path e
           then (case transcode_to_hls e
                        (path_join (UPLOAD_DIR e) (reserve (nfkd e) (uploads w) fname))
                        (path_join (HLS_DIR e) (''video_'' @ str_nat (utc_timestamp e)))
                        (hls_files w) of
                   (Inr rel, fs') \<Rightarrow> (Some rel, fs', flashes w)
                 | (Inl err, fs') \<Rightarrow> (None, fs', flashes w @ [Transcode_failed]))
           else (None, hls_files w, flashes w))"
    by blast
  from st assms(7)
  have "hls_manifest v = None" "fs = hls_files w" "fl = flashes w" by simp_all
  with up fn upload_post_no_encoder [OF assms(7)] show ?thesis by simp
qed

theorem missing_encoder_skips_transcoding_witness:
  "\<exists>v w'. upload_post bare_env sample_request sample_world = (Redirect_watch 1, w')
      \<and> videos w' = [v] \<and> filename v = Some ''a-1.mp4'' \<and> hls_manifest v = None
      \<and> hls_files w' = hls_files sample_world \<and> flashes w' = []"
proof -
  from missing_encoder_skips_transcoding [OF sample_facts(1,2) sample_allowed bare_facts(1,2)
      sample_facts(5) bare_facts(3)]
  obtain v w' where
    "upload_post bare_env sample_request sample_world
       = (Redirect_watch (next_id (videos sample_world)), w')"
    "videos w' = videos sample_world @ [v]"
    "filename v = Some (reserve (nfkd bare_env) (uploads sample_world) ''a.mp4'')"
    "hls_manifest v = None"
    "hls_files w' = hls_files sample_world"
    "flashes w' = flashes sample_world"
    by blast
  then have "upload_post bare_env sample_request sample_world = (Redirect_watch 1, w')"
    "videos w' = [v]" "filename v = Some ''a-1.mp4''" "hls_manifest v = None"
    "hls_files w' = hls_files sample_world" "flashes w' = []"
    by (simp_all add: sample_facts bare_facts sample_reserve sample_next_id sample_world_def)
  then show ?thesis by blast
qed

section \<open>The stored row\<close>

text \<open>
  Claim C7, amended. For every upload that ends with the redirect to the watch page, one
  row is added, and in it: a title that is absent or empty is replaced by the default title
  \<open>Sans titre\<close>; a title with a character that is not whitespace is stored with the
  whitespace at its two ends stripped, hence unchanged when it has none there; a category
  among \<open>tendance\<close>, \<open>jeux\<close>, \<open>musique\<close>, \<open>film\<close>, \<open>sport\<close> is stored unchanged, and any
  other category, or none, is replaced by \<open>tendance\<close>.
\<close>

theorem stored_title_and_category:
  assumes "upload_post e r w = (Redirect_watch n, w')"
  shows "\<exists>v. videos w' = videos w @ [v]
     \<and> (\<not> truthy (form_title r) \<longrightarrow> title v = ''Sans titre'')
     \<and> (\<forall>t. form_title r = Some t \<and> (\<exists>c\<in>set t. \<not> is_space c) \<longrightarrow> title v = strip t)
     \<and> (\<forall>t. form_title r = Some t \<and> t \<noteq> [] \<and> \<not> is_space (hd t) \<and> \<not> is_space (last t)
            \<longrightarrow> title v = t)
     \<and> (\<forall>c. form_category r = Some c
              \<and> c \<in> {''tendance'', ''jeux'', ''musique'', ''film'', ''sport''}
            \<longrightarrow> category v = c)
     \<and> ((\<forall>c. form_category r = Some c
              \<longrightarrow> c \<notin> {''tendance'', ''jeux'', ''musique'', ''film'', ''sport''})
            \<longrightarrow> category v = ''tendance'')"
proof -
  from upload_post_watch_row [OF assms] obtain v where
    vs: "videos w' = videos w @ [v]"
    and t: "title v = strip (or_else (form_title r) ''Sans titre'')"
    and c: "category v =
          (if CATEGORIES_MAP (or_else (form_category r) ''tendance'') \<noteq> None
           then or_else (form_category r) ''tendance'' else ''tendance'')"
    by blast
  have 1: "\<not> truthy (form_title r) \<longrightarrow> title v = ''Sans titre''"
    by (auto simp: t truthy_def or_else_def strip_default_title split: option.splits)
  have 2: "\<forall>t. form_title r = Some t \<and> (\<exists>c\<in>set t. \<not> is_space c) \<longrightarrow> title v = strip t"
    by (auto simp: t or_else_def)
  have 3: "\<forall>t. form_title r = Some t \<and> t \<noteq> [] \<and> \<not> is_space (hd t) \<and> \<not> is_space (last t)
            \<longrightarrow> title v = t"
    by (auto simp: t or_else_def strip_id)
  have 4: "\<forall>c. form_category r = Some c
              \<and> c \<in> {''tendance'', ''jeux'', ''musique'', ''film'', ''sport''}
            \<longrightarrow> category v = c"
    unfolding c category_known by (auto simp: or_else_def)
  have 5: "(\<forall>c. form_category r = Some c
              \<longrightarrow> c \<notin> {''tendance'', ''jeux'', ''musique'', ''film'', ''sport''})
            \<longrightarrow> category v = ''tendance''"
    unfolding c category_known by (cases "form_category r") (auto simp: or_else_def)
  show ?thesis by (rule exI [of _ v]) (intro conjI vs 1 2 3 4 5)
qed

theorem stored_title_and_category_witness:
  "\<exists>v. videos (snd (upload_post sample_env sample_request sample_world)) = [v]
      \<and> title v = ''Sans titre'' \<and> category v = ''jeux''"
  using stored_title_and_category [OF sample_upload]
  by (auto simp: sample_facts truthy_def)

theorem default_title_counterexample:
  "fst (upload_post sample_env sample_request sample_world) = Redirect_watch 1
   \<and> form_title sample_request = None
   \<and> map title (videos (snd (upload_post sample_env sample_request sample_world)))
       = [''Sans titre'']
   \<and> map title (videos (snd (upload_post sample_env sample_request sample_world)))
       \<noteq> [''Untitled'']"
proof -
  from upload_post_watch_row [OF sample_upload] obtain v where
    "videos (snd (upload_post sample_env sample_request sample_world)) = videos sample_world @ [v]"
    "title v = strip (or_else (form_title sample_request) ''Sans titre'')"
    by blast
  then have "map title (videos (snd (upload_post sample_env sample_request sample_world)))
       = [''Sans titre'']"
    by (simp add: sample_facts or_else_def strip_default_title)
  moreover have "fst (upload_post sample_env sample_request sample_world) = Redirect_watch 1"
    using sample_upload by (metis fst_conv)
  ultimately show ?thesis by (simp add: sample_facts)
qed


text \<open>
  Claim C8, amended. For every upload that ends with the redirect to the watch page, the
  thumbnail URL of the new row is the URL of the placeholder image service built from the
  base name (extension stripped) of the sanitized client filename, as it is before any
  collision suffix is appended. When the sanitized name is free in the upload root, it is
  the stored filename, and the thumbnail URL is then built from the base of the stored
  filename.
\<close>

theorem thumbnail_from_sanitized_base:
  assumes "upload_post e r w = (Redirect_watch n, w')"
  shows "\<exists>fname v. file_name r = Some fname \<and> videos w' = videos w @ [v]
     \<and> thumb_url v =
         Some (''https://picsum.photos/seed/mitabo-''
               @ fst (splitext (secure_filename (nfkd e) fname)) @ ''/640/360'')
     \<and> (\<not> path_exists (uploads w) (secure_filename (nfkd e) fname)
          \<longrightarrow> filename v = Some (secure_filename (nfkd e) fname)
              \<and> thumb_url v =
                  Some (''https://picsum.photos/seed/mitabo-''
                        @ fst (splitext (the (filename v))) @ ''/640/360''))"
proof -
  from upload_post_watch_row [OF assms] obtain fname v where
    f: "file_name r = Some fname" and vs: "videos w' = videos w @ [v]"
    and fn: "filename v = Some (reserve (nfkd e) (uploads w) fname)"
    and th: "thumb_url v =
          Some (''https://picsum.photos/seed/mitabo-''
                @ fst (splitext (secure_filename (nfkd e) fname)) @ ''/640/360'')"
    by blast
  have imp: "\<not> path_exists (uploads w) (secure_filename (nfkd e) fname)
          \<longrightarrow> filename v = Some (secure_filename (nfkd e) fname)
              \<and> thumb_url v =
                  Some (''https://picsum.photos/seed/mitabo-''
                        @ fst (splitext (the (filename v))) @ ''/640/360'')"
  proof
    assume "\<not> path_exists (uploads w) (secure_filename (nfkd e) fname)"
    from reserve_free_name [OF this] fn
    have n: "filename v = Some (secure_filename (nfkd e) fname)" by simp
    then have "the (filename v) = secure_filename (nfkd e) fname" by simp
    with th have "thumb_url v =
                  Some (''https://picsum.photos/seed/mitabo-''
                        @ fst (splitext (the (filename v))) @ ''/640/360'')"
      by (simp only:)
    with n show "filename v = Some (secure_filename (nfkd e) fname)
              \<and> thumb_url v =
                  Some (''https://picsum.photos/seed/mitabo-''
                        @ fst (splitext (the (filename v))) @ ''/640/360'')" ..
  qed
  show ?thesis
    by (rule exI [of _ fname], rule exI [of _ v]) (intro conjI f vs th imp)
qed

theorem thumbnail_from_sanitized_base_witness:
  "\<not> path_exists [''hls''] ''a.mp4''
   \<and> (\<exists>v. videos (snd (upload_post sample_env sample_request
                          fresh_world)) = [v]
        \<and> filename v = Some ''a.mp4''
        \<and> thumb_url v = Some ''https://picsum.photos/seed/mitabo-a/640/360'')"
proof -
  have free: "\<not> path_exists [''hls''] ''a.mp4''" by (simp add: path_exists_def)
  from thumbnail_from_sanitized_base [OF sample_upload_free] obtain fname v where
    a: "file_name sample_request = Some fname"
    and b: "videos (snd (upload_post sample_env sample_request
                          fresh_world))
            = videos fresh_world @ [v]"
    and c: "\<not> path_exists (uploads fresh_world)
                (secure_filename (nfkd sample_env) fname)
          \<longrightarrow> filename v = Some (secure_filename (nfkd sample_env) fname)
              \<and> thumb_url v =
                  Some (''https://picsum.photos/seed/mitabo-''
                        @ fst (splitext (the (filename v))) @ ''/640/360'')"
    by blast
  from a have fname: "fname = ''a.mp4''" by (simp add: sample_facts)
  from c free have "filename v = Some ''a.mp4''"
    "thumb_url v = Some (''https://picsum.photos/seed/mitabo-''
                        @ fst (splitext (the (filename v))) @ ''/640/360'')"
    by (simp_all add: fname sample_facts sample_reserve)
  then have "filename v = Some ''a.mp4''"
    "thumb_url v = Some ''https://picsum.photos/seed/mitabo-a/640/360''"
    by (simp_all add: sample_reserve)
  moreover from b have "videos (snd (upload_post sample_env sample_request
                          fresh_world)) = [v]"
    by (simp add: sample_facts)
  ultimately show ?thesis using free by blast
qed

theorem thumbnail_counterexample:
  "fst (upload_post sample_env sample_request sample_world) = Redirect_watch 1
   \<and> map filename (videos (snd (upload_post sample_env sample_request sample_world)))
       = [Some ''a-1.mp4'']
   \<and> map thumb_url (videos (snd (upload_post sample_env sample_request sample_world)))
       = [Some ''https://picsum.photos/seed/mitabo-a/640/360'']
   \<and> map thumb_url (videos (snd (upload_post sample_env sample_request sample_world)))
       \<noteq> map (\<lambda>v. Some (''https://picsum.photos/seed/mitabo-''
                         @ fst (splitext (the (filename v))) @ ''/640/360''))
             (videos (snd (upload_post sample_env sample_request sample_world)))"
proof -
  from upload_post_watch_row [OF sample_upload] obtain fname v where
    "file_name sample_request = Some fname"
    "videos (snd (upload_post sample_env sample_request sample_world)) = videos sample_world @ [v]"
    "filename v = Some (reserve (nfkd sample_env) (uploads sample_world) fname)"
    "thumb_url v =
          Some (''https://picsum.photos/seed/mitabo-''
                @ fst (splitext (secure_filename (nfkd sample_env) fname)) @ ''/640/360'')"
    by blast
  moreover from this(1) have "fname = ''a.mp4''" by (simp add: sample_facts)
  ultimately have "videos (snd (upload_post sample_env sample_request sample_world)) = [v]"
    "filename v = Some ''a-1.mp4''"
    "thumb_url v = Some ''https://picsum.photos/seed/mitabo-a/640/360''"
    by (simp_all add: sample_facts sample_reserve)
  moreover have "fst (upload_post sample_env sample_request sample_world) = Redirect_watch 1"
    using sample_upload by (metis fst_conv)
  ultimately show ?thesis by (simp add: sample_reserve)
qed

text \<open>
  Claim C10. For every environment, state and client filename, the name that the storage
  namer returns is the sanitized form of the client filename or that form with \<open>-k\<close>,
  \<open>k \<ge> 1\<close>, inserted before the extension; it is not empty, has no slash, and is neither
  \<open>.\<close> nor \<open>..\<close>, so that the path given to \<^verbatim>\<open>f.save\<close> is the upload root, one slash, and
  that name. The upload root changes in one way only: when the request has a filename that
  passes the extension gate and the save goes through, exactly that name is added, whether
  the commit that follows succeeds or not. When the answer is the redirect to the watch
  page, that name is also the \<open>filename\<close> of the new row.
\<close>

theorem stored_name_inside_upload_root:
  "(reserve (nfkd e) (uploads w) fname = secure_filename (nfkd e) fname
      \<or> (\<exists>k. 1 \<le> k \<and> reserve (nfkd e) (uploads w) fname =
            fst (splitext (secure_filename (nfkd e) fname)) @ ''-'' @ str_nat k
            @ snd (splitext (secure_filename (nfkd e) fname))))
   \<and> reserve (nfkd e) (uploads w) fname \<noteq> []
   \<and> CHR ''/'' \<notin> set (reserve (nfkd e) (uploads w) fname)
   \<and> reserve (nfkd e) (uploads w) fname \<noteq> ''.''
   \<and> reserve (nfkd e) (uploads w) fname \<noteq> ''..''
   \<and> path_join (UPLOAD_DIR e) (reserve (nfkd e) (uploads w) fname)
       = UPLOAD_DIR e @ ''/'' @ reserve (nfkd e) (uploads w) fname
   \<and> uploads (snd (upload_post e r w)) =
       (case file_name r of
          None \<Rightarrow> uploads w
        | Some sent \<Rightarrow>
            if sent \<noteq> [] \<and> allowed_file sent = Inr True \<and> save_ok e
            then uploads w @ [reserve (nfkd e) (uploads w) sent]
            else uploads w)
   \<and> (fst (upload_post e r w) = Redirect_upload_form
      \<or> (\<exists>sent v. file_name r = Some sent
           \<and> fst (upload_post e r w) = Redirect_watch (next_id (videos w))
           \<and> videos (snd (upload_post e r w)) = videos w @ [v]
           \<and> filename v = Some (reserve (nfkd e) (uploads w) sent)))"
proof -
  define final where "final = reserve (nfkd e) (uploads w) fname"
  from reserve_name_safe [of "nfkd e" "uploads w" fname]
  have ne: "final \<noteq> []" and safe: "\<forall>c\<in>set final. safe_char c"
    and hd: "hd final \<noteq> CHR ''.''"
    by (simp_all add: final_def)
  from safe safe_char_examples(2) have slash: "CHR ''/'' \<notin> set final" by blast
  from hd have dot: "final \<noteq> ''.''" and dotdot: "final \<noteq> ''..''" by auto
  from ne slash have "hd final \<noteq> CHR ''/''" by (cases final) auto
  with UPLOAD_DIR_end [of e] ne
  have path: "path_join (UPLOAD_DIR e) final = UPLOAD_DIR e @ ''/'' @ final"
    by (simp add: path_join_plain)
  have shape: "final = secure_filename (nfkd e) fname
        \<or> (\<exists>k. 1 \<le> k \<and> final =
              fst (splitext (secure_filename (nfkd e) fname)) @ ''-'' @ str_nat k
              @ snd (splitext (secure_filename (nfkd e) fname)))"
    unfolding final_def by (rule reserve_name_shape)
  show ?thesis
    unfolding final_def [symmetric]
    by (intro conjI shape ne slash dot dotdot path upload_post_uploads upload_post_answer)
qed

theorem stored_name_inside_upload_root_witness:
  "uploads (snd (upload_post nocommit_env sample_request sample_world))
     = [''hls'', ''a.mp4'', ''a-1.mp4'']
   \<and> fst (upload_post nocommit_env sample_request sample_world) = Redirect_upload_form
   \<and> videos (snd (upload_post nocommit_env sample_request sample_world)) = []
   \<and> path_join (UPLOAD_DIR nocommit_env) ''a-1.mp4'' = ''/srv/mitabo/uploads/a-1.mp4''
   \<and> uploads (snd (upload_post sample_env sample_request sample_world))
     = [''hls'', ''a.mp4'', ''a-1.mp4'']
   \<and> (\<exists>v. videos (snd (upload_post sample_env sample_request sample_world)) = [v]
        \<and> filename v = Some ''a-1.mp4'')"
proof -
  note n = stored_name_inside_upload_root [of nocommit_env sample_world "''a.mp4''" sample_request]
  note s = stored_name_inside_upload_root [of sample_env sample_world "''a.mp4''" sample_request]
  note r = nocommit_facts sample_facts sample_reserve
  from n have "path_join (UPLOAD_DIR nocommit_env) (reserve (nfkd nocommit_env) (uploads sample_world) ''a.mp4'')
       = UPLOAD_DIR nocommit_env @ ''/'' @ reserve (nfkd nocommit_env) (uploads sample_world) ''a.mp4''"
    by (elim conjE)
  then have 1: "path_join (UPLOAD_DIR nocommit_env) ''a-1.mp4'' = ''/srv/mitabo/uploads/a-1.mp4''"
    by (simp add: r)
  from n have "uploads (snd (upload_post nocommit_env sample_request sample_world)) =
       (case file_name sample_request of
          None \<Rightarrow> uploads sample_world
        | Some sent \<Rightarrow>
            if sent \<noteq> [] \<and> allowed_file sent = Inr True \<and> save_ok nocommit_env
            then uploads sample_world @ [reserve (nfkd nocommit_env) (uploads sample_world) sent]
            else uploads sample_world)"
    by (elim conjE)
  then have 2: "uploads (snd (upload_post nocommit_env sample_request sample_world))
     = [''hls'', ''a.mp4'', ''a-1.mp4'']"
    by (simp add: sample_allowed r)
  from s have "uploads (snd (upload_post sample_env sample_request sample_world)) =
       (case file_name sample_request of
          None \<Rightarrow> uploads sample_world
        | Some sent \<Rightarrow>
            if sent \<noteq> [] \<and> allowed_file sent = Inr True \<and> save_ok sample_env
            then uploads sample_world @ [reserve (nfkd sample_env) (uploads sample_world) sent]
            else uploads sample_world)"
    by (elim conjE)
  then have 3: "uploads (snd (upload_post sample_env sample_request sample_world))
     = [''hls'', ''a.mp4'', ''a-1.mp4'']"
    by (simp add: sample_allowed r)
  have 4: "fst (upload_post nocommit_env sample_request sample_world) = Redirect_upload_form"
  proof (cases "fst (upload_post nocommit_env sample_request sample_world)")
    case Redirect_upload_form
    then show ?thesis .
  next
    case (Redirect_watch k)
    from upload_post_watchD [OF this] nocommit_facts(2) show ?thesis by blast
  qed
  from s have "fst (upload_post sample_env sample_request sample_world) = Redirect_upload_form
      \<or> (\<exists>sent v. file_name sample_request = Some sent
           \<and> fst (upload_post sample_env sample_request sample_world)
               = Redirect_watch (next_id (videos sample_world))
           \<and> videos (snd (upload_post sample_env sample_request sample_world))
               = videos sample_world @ [v]
           \<and> filename v = Some (reserve (nfkd sample_env) (uploads sample_world) sent))"
    by (elim conjE)
  moreover have "fst (upload_post sample_env sample_request sample_world) \<noteq> Redirect_upload_form"
    using sample_upload by (metis fst_conv response.distinct(1))
  ultimately obtain sent v where
    "file_name sample_request = Some sent"
    "videos (snd (upload_post sample_env sample_request sample_world))
               = videos sample_world @ [v]"
    "filename v = Some (reserve (nfkd sample_env) (uploads sample_world) sent)"
    by blast
  moreover from this(1) have "sent = ''a.mp4''" by (simp add: sample_facts)
  ultimately have 5: "\<exists>v. videos (snd (upload_post sample_env sample_request sample_world)) = [v]
        \<and> filename v = Some ''a-1.mp4''"
    by (simp add: r)
  have 6: "videos (snd (upload_post nocommit_env sample_request sample_world)) = []"
    using upload_post_not_committed(2) [OF sample_facts(1,2) sample_allowed
        nocommit_facts(1,2), of sample_world]
    by (simp add: sample_facts)
  from 1 2 3 4 5 6 show ?thesis by (intro conjI)
qed

text \<open>
  Claim C9. For every client filename and every list of entries of the upload root, the
  loop of the storage namer ends: \<open>reserve_loop\<close> is a total function (its termination is
  proved where it is defined), and it stops after at most one probe more than there are
  entries, on the sanitized name (\<open>k = 0\<close>) or on the name with a suffix \<open>k\<close> between 1 and
  the number of entries plus one. The name that it returns is not among the entries.
\<close>

theorem reserve_terminates_with_free_name:
  "reserve nf entries fname \<notin> set entries
   \<and> (\<exists>k. k \<le> length entries + 1
        \<and> reserve nf entries fname =
            (if k = 0 then secure_filename nf fname
             else fst (splitext (secure_filename nf fname)) @ ''-'' @ str_nat k
                  @ snd (splitext (secure_filename nf fname))))"
proof
  let ?s = "secure_filename nf fname"
  let ?b = "fst (splitext ?s)" and ?x = "snd (splitext ?s)"
  have r: "reserve nf entries fname = reserve_loop entries ?b ?x ?s 1"
    by (simp add: reserve_def Let_def split_def)
  show "reserve nf entries fname \<notin> set entries"
    using reserve_loop_free [of entries ?b ?x ?s 1] by (simp add: r path_exists_def)
  from reserve_loop_bounded [of entries ?b ?x ?s 1] consider
      "reserve_loop entries ?b ?x ?s 1 = ?s"
    | k where "1 \<le> k" "k \<le> 1 + length entries"
        "reserve_loop entries ?b ?x ?s 1 = ?b @ ''-'' @ str_nat k @ ?x"
    by blast
  then show "\<exists>k. k \<le> length entries + 1
        \<and> reserve nf entries fname =
            (if k = 0 then ?s else ?b @ ''-'' @ str_nat k @ ?x)"
  proof cases
    case 1
    then show ?thesis by (intro exI [of _ 0]) (simp add: r)
  next
    case 2
    then show ?thesis by (intro exI [of _ k]) (simp add: r)
  qed
qed

end
